theory Spec2Isabelle
  imports Main "HOL-Library.AList"
begin

section \<open>The password authentication system\<close>

text \<open>
  A shallow embedding of \<^verbatim>\<open>password-authentication-system.py\<close>: the class
  \<^verbatim>\<open>PasswordAuthenticator\<close> with its three interactive flows
  (\<^verbatim>\<open>register_user\<close>, \<^verbatim>\<open>authenticate\<close>, \<^verbatim>\<open>reset_password\<close>) and the helpers
  they call. The console, the clock, the random generator, bcrypt and the regular
  expression of the e-mail check are outside the program; they enter the model as
  explicit inputs.
\<close>

subsection \<open>Time\<close>

text \<open>
  \<^verbatim>\<open>datetime.now()\<close> has microsecond resolution; the database stores a time as the
  text \<^verbatim>\<open>"%Y-%m-%d %H:%M:%S"\<close>, which has whole seconds only. A \<open>datetime\<close> is a
  number of microseconds, a \<open>timestamp\<close> the number of whole seconds that the stored
  text denotes. \<open>strftime\<close> drops the microseconds, \<open>strptime\<close> reads the text
  back with microseconds 0.
\<close>

type_synonym datetime = int
type_synonym timestamp = int

definition strftime :: "datetime \<Rightarrow> timestamp" where
  "strftime t = t div 1000000"

definition strptime :: "timestamp \<Rightarrow> datetime" where
  "strptime s = s * 1000000"

definition timedelta_minutes :: "int \<Rightarrow> datetime" where
  "timedelta_minutes m = m * 60 * 1000000"

subsection \<open>The user database\<close>

text \<open>
  One entry of \<^verbatim>\<open>self.database\<close>, as \<^verbatim>\<open>register_user\<close> creates it. A Python
  \<^verbatim>\<open>str\<close> is a \<open>string\<close>, one \<open>char\<close> for one character.
\<close>

record user_data =
  password_hash :: string
  email :: string
  failed_attempts :: int
  locked_until :: "timestamp option"
  registered_on :: timestamp

text \<open>
  The dictionary \<^verbatim>\<open>self.database\<close> keeps its keys in insertion order, and an
  assignment to an existing key keeps the key's place: an association list with
  \<open>map_of\<close> for the lookup and \<open>AList.update\<close> for the assignment.
\<close>

type_synonym db = "(string \<times> user_data) list"

text \<open>The two settings of \<^verbatim>\<open>__init__\<close>.\<close>

definition max_failed_attempts :: int where
  "max_failed_attempts = 5"

definition lockout_duration :: int where
  "lockout_duration = 15"

subsection \<open>The world outside\<close>

text \<open>
  An \<open>event\<close> is one effect of the program on the outside, or one reading from it;
  the \<open>trace\<close> of a world lists them in the order they happened. Printed messages
  are not recorded.
\<close>

datatype event =
    Input string
  | Getpass string
  | Checkpw string string
  | Code_sent string string
  | Saved db

text \<open>
  \<open>database\<close> is \<^verbatim>\<open>self.database\<close>; \<open>db_file\<close> is the content of the JSON file,
  \<open>None\<close> while the file does not exist; \<open>typed\<close> holds the lines the user is
  still going to type at the terminal, in order: \<^verbatim>\<open>input()\<close> and
  \<^verbatim>\<open>getpass.getpass()\<close> each take the next one.
\<close>

record world =
  database :: db
  db_file :: "db option"
  typed :: "string list"
  trace :: "event list"

text \<open>
  What Python raises when the input has ended and for a key that is missing, and what
  bcrypt raises for a password it does not hash.
\<close>

datatype exn = EOFError | KeyError | ValueError

text \<open>
  The libraries the program calls: \<^verbatim>\<open>bcrypt.checkpw(password, hash)\<close>,
  \<^verbatim>\<open>bcrypt.hashpw(password, salt)\<close> and
  \<^verbatim>\<open>re.match(r'^[\w\.-]+@[\w\.-]+\.\w+$', email)\<close>. \<open>hashpw\<close> returns the hash
  or raises: bcrypt 5.0.0 raises \<^verbatim>\<open>ValueError\<close> for a password of more than 72
  bytes, and the program calls it without a \<^verbatim>\<open>try\<close>.
\<close>

record externals =
  checkpw :: "string \<Rightarrow> string \<Rightarrow> bool"
  hashpw :: "string \<Rightarrow> string \<Rightarrow> exn + string"
  email_match :: "string \<Rightarrow> bool"

definition input :: "world \<Rightarrow> (exn + string) \<times> world" where
  "input w =
     (case typed w of
        [] \<Rightarrow> (Inl EOFError, w)
      | l # ls \<Rightarrow> (Inr l, w\<lparr>typed := ls, trace := trace w @ [Input l]\<rparr>))"

definition getpass :: "world \<Rightarrow> (exn + string) \<times> world" where
  "getpass w =
     (case typed w of
        [] \<Rightarrow> (Inl EOFError, w)
      | l # ls \<Rightarrow> (Inr l, w\<lparr>typed := ls, trace := trace w @ [Getpass l]\<rparr>))"

definition save_database :: "world \<Rightarrow> world" where
  "save_database w =
     w\<lparr>db_file := Some (database w), trace := trace w @ [Saved (database w)]\<rparr>"

definition load_database :: "world \<Rightarrow> world" where
  "load_database w =
     (case db_file w of
        Some d \<Rightarrow> w\<lparr>database := d\<rparr>
      | None \<Rightarrow> save_database (w\<lparr>database := []\<rparr>))"

text \<open>
  \<^verbatim>\<open>send_verification_code\<close> draws six random digits (here the argument
  \<open>code\<close>), shows or mails them, and returns them on every path: the simulation,
  the mail that was sent, and the fallback when sending failed.
\<close>

definition send_verification_code :: "string \<Rightarrow> string \<Rightarrow> world \<Rightarrow> string \<times> world" where
  "send_verification_code code addr w = (code, w\<lparr>trace := trace w @ [Code_sent addr code]\<rparr>)"

subsection \<open>The lockout check\<close>

definition check_account_lockout :: "datetime \<Rightarrow> string \<Rightarrow> world \<Rightarrow> bool \<times> world" where
  "check_account_lockout now username w =
     (case map_of (database w) username of
        None \<Rightarrow> (False, w)
      | Some ud \<Rightarrow>
          (case locked_until ud of
             None \<Rightarrow> (False, w)
           | Some s \<Rightarrow>
               if now < strptime s then (True, w)
               else (False,
                 save_database (w\<lparr>database :=
                   AList.update username (ud\<lparr>failed_attempts := 0, locked_until := None\<rparr>)
                     (database w)\<rparr>))))"

subsection \<open>The password rules\<close>

definition ord :: "char \<Rightarrow> nat" where
  "ord c = of_char c"

text \<open>The character classes \<^verbatim>\<open>[A-Z]\<close>, \<^verbatim>\<open>[a-z]\<close> and \<^verbatim>\<open>[0-9]\<close>.\<close>

definition upper_AZ :: "char \<Rightarrow> bool" where
  "upper_AZ c = (ord CHR ''A'' \<le> ord c \<and> ord c \<le> ord CHR ''Z'')"

definition lower_az :: "char \<Rightarrow> bool" where
  "lower_az c = (ord CHR ''a'' \<le> ord c \<and> ord c \<le> ord CHR ''z'')"

definition digit_09 :: "char \<Rightarrow> bool" where
  "digit_09 c = (ord CHR ''0'' \<le> ord c \<and> ord c \<le> ord CHR ''9'')"

text \<open>\<^verbatim>\<open>re.search\<close> with a pattern of one character class.\<close>

definition re_search :: "(char \<Rightarrow> bool) \<Rightarrow> string \<Rightarrow> bool" where
  "re_search cls s = list_ex cls s"

text \<open>
  The four checks on a new password, in the order of the source; each one that fails
  prints its message and goes back to the prompt:
  \<open>TooShort\<close> is "Password too short!", \<open>MissingUppercase\<close> is "Password must
  contain at least one uppercase letter!", \<open>MissingLowercase\<close> and \<open>MissingDigit\<close>
  the same for a lowercase letter and a number.
\<close>

datatype violation = TooShort | MissingUppercase | MissingLowercase | MissingDigit

definition password_violation :: "string \<Rightarrow> violation option" where
  "password_violation password =
     (if length password < 8 then Some TooShort
      else if \<not> re_search upper_AZ password then Some MissingUppercase
      else if \<not> re_search lower_az password then Some MissingLowercase
      else if \<not> re_search digit_09 password then Some MissingDigit
      else None)"

subsection \<open>The verification code\<close>

text \<open>
  The loop \<^verbatim>\<open>for attempt in range(3)\<close> of \<^verbatim>\<open>authenticate\<close>, run on the list
  of the values \<open>attempt\<close> still has to take. \<open>Inr True\<close> is \<^verbatim>\<open>return True\<close>; when
  the list is used up, the statements after the loop \<^verbatim>\<open>return False\<close>.
\<close>

fun auth_code_loop :: "string \<Rightarrow> nat list \<Rightarrow> world \<Rightarrow> (exn + bool) \<times> world" where
  "auth_code_loop verification_code [] w = (Inr False, w)"
| "auth_code_loop verification_code (attempt # attempts) w =
     (case input w of
        (Inl e, w1) \<Rightarrow> (Inl e, w1)
      | (Inr user_code, w1) \<Rightarrow>
          if user_code = verification_code then (Inr True, w1)
          else auth_code_loop verification_code attempts w1)"

text \<open>
  The same loop in \<^verbatim>\<open>register_user\<close>. \<open>Inr True\<close> is the \<^verbatim>\<open>break\<close> after a
  match, \<open>Inr False\<close> is \<^verbatim>\<open>return False\<close>: inside the loop when no attempt is
  left, and in the \<^verbatim>\<open>else\<close> of the \<^verbatim>\<open>for\<close> when the range is used up.
\<close>

fun register_code_loop :: "string \<Rightarrow> nat list \<Rightarrow> world \<Rightarrow> (exn + bool) \<times> world" where
  "register_code_loop verification_code [] w = (Inr False, w)"
| "register_code_loop verification_code (attempt # attempts) w =
     (case input w of
        (Inl e, w1) \<Rightarrow> (Inl e, w1)
      | (Inr user_code, w1) \<Rightarrow>
          if user_code = verification_code then (Inr True, w1)
          else
            (let attempts_left = 2 - int attempt
             in if attempts_left > 0 then register_code_loop verification_code attempts w1
                else (Inr False, w1)))"

subsection \<open>Registration\<close>

text \<open>
  \<^verbatim>\<open>re.match(r'^[a-zA-Z0-9._]+$', username)\<close>: one or more characters of the class,
  up to the end of the string or to a newline that ends the string.
\<close>

definition username_char :: "char \<Rightarrow> bool" where
  "username_char c =
     (lower_az c \<or> upper_AZ c \<or> digit_09 c \<or> c = CHR ''.'' \<or> c = CHR ''_'')"

definition username_match :: "string \<Rightarrow> bool" where
  "username_match s =
     (let body = (if s \<noteq> [] \<and> last s = CHR 0x0A then butlast s else s)
      in body \<noteq> [] \<and> list_all username_char body)"

text \<open>The first \<^verbatim>\<open>while True\<close> of \<^verbatim>\<open>register_user\<close>: it ends with a username.\<close>

function username_loop :: "world \<Rightarrow> (exn + string) \<times> world" where
  "username_loop w =
     (case input w of
        (Inl e, w1) \<Rightarrow> (Inl e, w1)
      | (Inr username, w1) \<Rightarrow>
          if length username < 4 then username_loop w1
          else if \<not> username_match username then username_loop w1
          else if map_of (database w1) username \<noteq> None then username_loop w1
          else (Inr username, w1))"
  by pat_completeness auto
termination
  by (relation "measure (\<lambda>w. length (typed w))")
     (auto simp: input_def split: list.splits)

declare username_loop.simps [simp del]

text \<open>
  The second \<^verbatim>\<open>while True\<close>: \<open>Inr (Some addr)\<close> is the \<^verbatim>\<open>break\<close> with a verified
  address, \<open>Inr None\<close> is \<^verbatim>\<open>return False\<close>.
\<close>

function email_loop :: "externals \<Rightarrow> string \<Rightarrow> world \<Rightarrow> (exn + string option) \<times> world" where
  "email_loop ext code w =
     (case input w of
        (Inl e, w1) \<Rightarrow> (Inl e, w1)
      | (Inr addr, w1) \<Rightarrow>
          if \<not> email_match ext addr then email_loop ext code w1
          else
            (case send_verification_code code addr w1 of
               (verification_code, w2) \<Rightarrow>
                 (case register_code_loop verification_code [0..<3] w2 of
                    (Inl e, w3) \<Rightarrow> (Inl e, w3)
                  | (Inr verified, w3) \<Rightarrow>
                      if verified then (Inr (Some addr), w3) else (Inr None, w3))))"
  by pat_completeness auto
termination
  by (relation "measure (\<lambda>(ext, code, w). length (typed w))")
     (auto simp: input_def split: list.splits)

declare email_loop.simps [simp del]

text \<open>
  The last \<^verbatim>\<open>while True\<close>, which \<^verbatim>\<open>reset_password\<close> repeats word for word but
  for the prompts: it ends with a password that passed the four checks and was typed
  twice.
\<close>

function password_loop :: "world \<Rightarrow> (exn + string) \<times> world" where
  "password_loop w =
     (case getpass w of
        (Inl e, w1) \<Rightarrow> (Inl e, w1)
      | (Inr password, w1) \<Rightarrow>
          (case password_violation password of
             Some v \<Rightarrow> password_loop w1
           | None \<Rightarrow>
               (case getpass w1 of
                  (Inl e, w2) \<Rightarrow> (Inl e, w2)
                | (Inr confirm_password, w2) \<Rightarrow>
                    if password \<noteq> confirm_password then password_loop w2
                    else (Inr password, w2))))"
  by pat_completeness auto
termination
  by (relation "measure (\<lambda>w. length (typed w))")
     (auto simp: getpass_def split: list.splits)

declare password_loop.simps [simp del]

text \<open>
  \<open>code\<close> is what the random generator gives \<^verbatim>\<open>send_verification_code\<close>, \<open>salt\<close>
  what \<^verbatim>\<open>bcrypt.gensalt()\<close> returns, \<open>now\<close> the clock at the creation of the
  entry.
\<close>

definition register_user ::
  "externals \<Rightarrow> string \<Rightarrow> string \<Rightarrow> datetime \<Rightarrow> world \<Rightarrow> (exn + bool) \<times> world" where
  "register_user ext code salt now w =
     (case username_loop w of
        (Inl e, w1) \<Rightarrow> (Inl e, w1)
      | (Inr username, w1) \<Rightarrow>
          (case email_loop ext code w1 of
             (Inl e, w2) \<Rightarrow> (Inl e, w2)
           | (Inr None, w2) \<Rightarrow> (Inr False, w2)
           | (Inr (Some addr), w2) \<Rightarrow>
               (case password_loop w2 of
                  (Inl e, w3) \<Rightarrow> (Inl e, w3)
                | (Inr password, w3) \<Rightarrow>
                    (case hashpw ext password salt of
                       Inl e \<Rightarrow> (Inl e, w3)
                     | Inr hashed_password \<Rightarrow>
                         (let entry = \<lparr>password_hash = hashed_password, email = addr,
                                      failed_attempts = 0, locked_until = None,
                                      registered_on = strftime now\<rparr>
                          in (Inr True,
                              save_database
                                (w3\<lparr>database :=
                                   AList.update username entry (database w3)\<rparr>)))))))"

subsection \<open>Login\<close>

text \<open>
  \<open>now_check\<close> is the clock when \<^verbatim>\<open>check_account_lockout\<close> reads it, \<open>now_fail\<close>
  the clock when the lock time is computed after a wrong password, \<open>code\<close> the random
  digits of \<^verbatim>\<open>send_verification_code\<close>.
\<close>

definition authenticate ::
  "externals \<Rightarrow> datetime \<Rightarrow> datetime \<Rightarrow> string \<Rightarrow> world \<Rightarrow> (exn + bool) \<times> world" where
  "authenticate ext now_check now_fail code w =
     (case input w of
        (Inl e, w1) \<Rightarrow> (Inl e, w1)
      | (Inr username, w1) \<Rightarrow>
          if map_of (database w1) username = None then (Inr False, w1)
          else
            (case check_account_lockout now_check username w1 of
               (True, w2) \<Rightarrow> (Inr False, w2)
             | (False, w2) \<Rightarrow>
                 (case getpass w2 of
                    (Inl e, w3) \<Rightarrow> (Inl e, w3)
                  | (Inr password, w3) \<Rightarrow>
                      (case map_of (database w3) username of
                         None \<Rightarrow> (Inl KeyError, w3)
                       | Some ud \<Rightarrow>
                           (let w4 = w3\<lparr>trace := trace w3 @ [Checkpw password (password_hash ud)]\<rparr>;
                                password_match = checkpw ext password (password_hash ud)
                            in if \<not> password_match then
                                 (let ud1 = ud\<lparr>failed_attempts := failed_attempts ud + 1\<rparr>;
                                      ud2 =
                                        (if failed_attempts ud1 \<ge> max_failed_attempts then
                                           (let lock_time = now_fail + timedelta_minutes lockout_duration
                                            in ud1\<lparr>locked_until := Some (strftime lock_time)\<rparr>)
                                         else ud1)
                                  in (Inr False,
                                      save_database
                                        (w4\<lparr>database := AList.update username ud2 (database w4)\<rparr>)))
                               else
                                 (let ud1 = ud\<lparr>failed_attempts := 0\<rparr>;
                                      w5 = save_database
                                             (w4\<lparr>database := AList.update username ud1 (database w4)\<rparr>)
                                  in case send_verification_code code (email ud1) w5 of
                                       (verification_code, w6) \<Rightarrow>
                                         auth_code_loop verification_code [0..<3] w6))))))"

subsection \<open>Password reset\<close>

definition reset_password ::
  "externals \<Rightarrow> datetime \<Rightarrow> string \<Rightarrow> string \<Rightarrow> world \<Rightarrow> (exn + bool) \<times> world" where
  "reset_password ext now_check code salt w =
     (case input w of
        (Inl e, w1) \<Rightarrow> (Inl e, w1)
      | (Inr username, w1) \<Rightarrow>
          if map_of (database w1) username = None then (Inr False, w1)
          else
            (case check_account_lockout now_check username w1 of
               (True, w2) \<Rightarrow> (Inr False, w2)
             | (False, w2) \<Rightarrow>
                 (case map_of (database w2) username of
                    None \<Rightarrow> (Inl KeyError, w2)
                  | Some ud \<Rightarrow>
                      (case send_verification_code code (email ud) w2 of
                         (verification_code, w3) \<Rightarrow>
                           (case input w3 of
                              (Inl e, w4) \<Rightarrow> (Inl e, w4)
                            | (Inr user_code, w4) \<Rightarrow>
                                if user_code \<noteq> verification_code then (Inr False, w4)
                                else
                                  (case password_loop w4 of
                                     (Inl e, w5) \<Rightarrow> (Inl e, w5)
                                   | (Inr new_password, w5) \<Rightarrow>
                                       (case hashpw ext new_password salt of
                                          Inl e \<Rightarrow> (Inl e, w5)
                                        | Inr hashed_password \<Rightarrow>
                                            (let ud1 = ud\<lparr>password_hash := hashed_password,
                                                           failed_attempts := 0,
                                                           locked_until := None\<rparr>
                                             in (Inr True,
                                                 save_database
                                                   (w5\<lparr>database :=
                                                      AList.update username ud1
                                                        (database w5)\<rparr>))))))))))"

subsection \<open>The demo users and the start of the program\<close>

text \<open>
  The loop over the two demo users hashes and assigns one after the other, and saves
  after the loop: when the second hash raises, the first entry is in the database in
  memory and nothing is saved.
\<close>

definition populate_demo_users ::
  "externals \<Rightarrow> string \<Rightarrow> string \<Rightarrow> datetime \<Rightarrow> datetime \<Rightarrow> world \<Rightarrow> (exn + unit) \<times> world"
  where
  "populate_demo_users ext salt1 salt2 now1 now2 w =
     (if database w \<noteq> [] then (Inr (), w)
      else
        (case hashpw ext ''Password123'' salt1 of
           Inl e \<Rightarrow> (Inl e, w)
         | Inr hashed1 \<Rightarrow>
             (let user1 = \<lparr>password_hash = hashed1, email = ''user1@example.com'',
                            failed_attempts = 0, locked_until = None,
                            registered_on = strftime now1\<rparr>;
                  w1 = w\<lparr>database := AList.update ''user1'' user1 (database w)\<rparr>
              in case hashpw ext ''Admin123456'' salt2 of
                   Inl e \<Rightarrow> (Inl e, w1)
                 | Inr hashed2 \<Rightarrow>
                     (let admin = \<lparr>password_hash = hashed2, email = ''admin@example.com'',
                                    failed_attempts = 0, locked_until = None,
                                    registered_on = strftime now2\<rparr>
                      in (Inr (),
                          save_database
                            (w1\<lparr>database :=
                               AList.update ''admin'' admin (database w1)\<rparr>))))))"

text \<open>
  \<^verbatim>\<open>PasswordAuthenticator()\<close> in a new process: the file as the last process left
  it, the lines \<open>ls\<close> waiting at the terminal, and \<^verbatim>\<open>load_database\<close>.
\<close>

definition init :: "db option \<Rightarrow> string list \<Rightarrow> world" where
  "init file ls = load_database \<lparr>database = [], db_file = file, typed = ls, trace = []\<rparr>"

subsection \<open>Runs of the program\<close>

text \<open>
  Logins one after the other, as the menu loop of \<^verbatim>\<open>main\<close> runs them when the user
  chooses 1 each time; every login has its own clock readings and its own code.
\<close>

fun logins :: "externals \<Rightarrow> (datetime \<times> datetime \<times> string) list \<Rightarrow> world \<Rightarrow> world" where
  "logins ext [] w = w"
| "logins ext ((now_check, now_fail, code) # rest) w =
     logins ext rest (snd (authenticate ext now_check now_fail code w))"

text \<open>
  The worlds the program can be in between two flows: it starts without a file, any
  flow may be run with any input, and the process may end and start again on the file
  it left.
\<close>

inductive reachable :: "world \<Rightarrow> bool" where
  start: "reachable (init None ls)"
| restart: "reachable w \<Longrightarrow> reachable (init (db_file w) ls)"
| demo: "reachable w \<Longrightarrow> reachable (snd (populate_demo_users ext salt1 salt2 now1 now2 w))"
| register: "reachable w \<Longrightarrow> reachable (snd (register_user ext code salt now w))"
| login: "reachable w \<Longrightarrow> reachable (snd (authenticate ext now_check now_fail code w))"
| reset: "reachable w \<Longrightarrow> reachable (snd (reset_password ext now_check code salt w))"

text \<open>
  The counter and the lock of one entry: below the threshold without a lock, at the
  threshold with one.
\<close>

definition counter_ok :: "user_data \<Rightarrow> bool" where
  "counter_ok ud =
     (case locked_until ud of
        None \<Rightarrow> 0 \<le> failed_attempts ud \<and> failed_attempts ud < max_failed_attempts
      | Some s \<Rightarrow> failed_attempts ud = max_failed_attempts)"

text \<open>The same of every entry of a database.\<close>

definition db_ok :: "db \<Rightarrow> bool" where
  "db_ok d = list_all (\<lambda>(u, ud). counter_ok ud) d"

text \<open>And of the database in memory and the one in the file, if there is a file.\<close>

definition world_ok :: "world \<Rightarrow> bool" where
  "world_ok w = (db_ok (database w) \<and> (case db_file w of None \<Rightarrow> True | Some d \<Rightarrow> db_ok d))"

text \<open>
  Stand-ins for the libraries in the concrete runs below: a hash that is the password
  behind a \<open>#\<close> and that raises over 72 characters as bcrypt 5.0.0 does, and an
  e-mail check that asks for an \<open>@\<close>.
\<close>

definition demo_externals :: externals where
  "demo_externals =
     \<lparr>checkpw = (\<lambda>password hash. hash = CHR ''#'' # password),
      hashpw = (\<lambda>password salt.
         if 72 < length password then Inl ValueError else Inr (CHR ''#'' # password)),
      email_match = (\<lambda>addr. CHR ''@'' \<in> set addr)\<rparr>"


text \<open>The entry of \<open>alice01\<close> after Scenario A of the specification, and her database.\<close>

definition alice :: user_data where
  "alice = \<lparr>password_hash = ''#Passw0rd'', email = ''a@x.com'', failed_attempts = 0,
             locked_until = None, registered_on = 0\<rparr>"

text \<open>The same entry after five wrong passwords, locked until the second \<open>s\<close>.\<close>

definition locked_alice :: "timestamp \<Rightarrow> user_data" where
  "locked_alice s = alice\<lparr>failed_attempts := 5, locked_until := Some s\<rparr>"

text \<open>A world between two flows: the file holds the database, the lines \<open>ls\<close> wait.\<close>

definition world_of :: "db \<Rightarrow> string list \<Rightarrow> world" where
  "world_of d ls = \<lparr>database = d, db_file = Some d, typed = ls, trace = []\<rparr>"

definition alice_world :: "string list \<Rightarrow> world" where
  "alice_world ls = world_of [(''alice01'', alice)] ls"

text \<open>
  Scenarios A and B of the specification, from the first start of the program:
  \<open>alice01\<close> registers, then five logins with a wrong password, the fifth at 15.5
  seconds on the clock; the lines of a sixth login are waiting.
\<close>

definition scenario_A :: world where
  "scenario_A =
     snd (register_user demo_externals ''123456'' ''salt'' 0
       (init None
          [''alice01'', ''a@x.com'', ''123456'', ''Passw0rd'', ''Passw0rd'',
           ''alice01'', ''nope'', ''alice01'', ''nope'', ''alice01'', ''nope'',
           ''alice01'', ''nope'', ''alice01'', ''nope'',
           ''alice01'', ''Passw0rd'']))"

definition scenario_B :: world where
  "scenario_B =
     logins demo_externals
       [(0, 0, ''1''), (0, 0, ''2''), (0, 0, ''3''), (0, 0, ''4''), (0, 15500000, ''5'')]
       scenario_A"

section \<open>Properties\<close>

subsection \<open>Reading the terminal\<close>

lemma input_Cons [simp]:
  "typed w = l # ls \<Longrightarrow> input w = (Inr l, w\<lparr>typed := ls, trace := trace w @ [Input l]\<rparr>)"
  by (simp add: input_def)

lemma input_Nil [simp]: "typed w = [] \<Longrightarrow> input w = (Inl EOFError, w)"
  by (simp add: input_def)

lemma getpass_Cons [simp]:
  "typed w = l # ls \<Longrightarrow> getpass w = (Inr l, w\<lparr>typed := ls, trace := trace w @ [Getpass l]\<rparr>)"
  by (simp add: getpass_def)

lemma getpass_Nil [simp]: "typed w = [] \<Longrightarrow> getpass w = (Inl EOFError, w)"
  by (simp add: getpass_def)

subsection \<open>The lockout check\<close>

text \<open>
  C10. For a username that is not in the database, \<^verbatim>\<open>check_account_lockout\<close>
  returns \<^verbatim>\<open>False\<close> and changes nothing: not the database, not the file, and
  nothing else of the world.
\<close>

theorem lockout_unknown_user:
  "map_of (database w) username = None \<Longrightarrow>
   check_account_lockout now username w = (False, w)"
  by (simp add: check_account_lockout_def)

theorem lockout_unknown_user_witness:
  "map_of (database (alice_world [])) ''bob'' = None \<and>
   check_account_lockout 0 ''bob'' (alice_world []) = (False, alice_world [])"
  using lockout_unknown_user [of "alice_world []" "''bob''" 0]
  by (simp add: alice_world_def world_of_def)

text \<open>
  C4. For a registered user, \<^verbatim>\<open>check_account_lockout\<close> returns \<^verbatim>\<open>True\<close> exactly
  when \<open>locked_until\<close> is set and the clock is strictly before it. When
  \<open>locked_until\<close> is set and has elapsed, the check returns \<^verbatim>\<open>False\<close> after it has
  set \<open>failed_attempts\<close> to 0, cleared \<open>locked_until\<close> and saved the database.
\<close>

theorem lockout_check:
  assumes "map_of (database w) username = Some ud"
  shows "(fst (check_account_lockout now username w) \<longleftrightarrow>
            (\<exists>s. locked_until ud = Some s \<and> now < strptime s))
       \<and> (\<forall>s. locked_until ud = Some s \<and> \<not> now < strptime s \<longrightarrow>
            check_account_lockout now username w =
              (False,
               save_database (w\<lparr>database :=
                 AList.update username (ud\<lparr>failed_attempts := 0, locked_until := None\<rparr>)
                   (database w)\<rparr>)))"
  using assms by (auto simp: check_account_lockout_def split: option.splits)

theorem lockout_check_witness:
  "map_of (database (world_of [(''alice01'', locked_alice 900)] [])) ''alice01''
     = Some (locked_alice 900)
   \<and> fst (check_account_lockout 899999999 ''alice01''
          (world_of [(''alice01'', locked_alice 900)] []))
   \<and> check_account_lockout 900000000 ''alice01''
        (world_of [(''alice01'', locked_alice 900)] [])
      = (False,
         \<lparr>database = [(''alice01'', alice)], db_file = Some [(''alice01'', alice)],
          typed = [], trace = [Saved [(''alice01'', alice)]]\<rparr>)"
  using
    lockout_check [of "world_of [(''alice01'', locked_alice 900)] []" "''alice01''"
      "locked_alice 900" 899999999]
    lockout_check [of "world_of [(''alice01'', locked_alice 900)] []" "''alice01''"
      "locked_alice 900" 900000000]
  by (simp add: world_of_def locked_alice_def alice_def strptime_def save_database_def)

subsection \<open>The password loop\<close>

lemma password_loop_eof:
  "typed w = [] \<Longrightarrow> password_loop w = (Inl EOFError, w)"
  by (subst password_loop.simps) simp

lemma password_loop_violation:
  "typed w = l # ls \<Longrightarrow> password_violation l \<noteq> None \<Longrightarrow>
   password_loop w = password_loop (w\<lparr>typed := ls, trace := trace w @ [Getpass l]\<rparr>)"
  by (subst password_loop.simps) auto

lemma password_loop_eof2:
  "typed w = [l] \<Longrightarrow> password_violation l = None \<Longrightarrow>
   password_loop w = (Inl EOFError, w\<lparr>typed := [], trace := trace w @ [Getpass l]\<rparr>)"
  by (subst password_loop.simps) simp

lemma password_loop_confirmed:
  "typed w = l # l # ls \<Longrightarrow> password_violation l = None \<Longrightarrow>
   password_loop w = (Inr l, w\<lparr>typed := ls, trace := trace w @ [Getpass l, Getpass l]\<rparr>)"
  by (subst password_loop.simps) simp

lemma password_loop_mismatch:
  "typed w = l # c # ls \<Longrightarrow> password_violation l = None \<Longrightarrow> l \<noteq> c \<Longrightarrow>
   password_loop w = password_loop (w\<lparr>typed := ls, trace := trace w @ [Getpass l, Getpass c]\<rparr>)"
  by (subst password_loop.simps) simp

lemma password_loop_accepts:
  "password_loop w = (Inr p, w') \<Longrightarrow> password_violation p = None"
proof (induction "length (typed w)" arbitrary: w rule: less_induct)
  case less
  show ?case
  proof (cases "typed w")
    case Nil
    with less.prems show ?thesis by (simp add: password_loop_eof)
  next
    case (Cons l ls)
    show ?thesis
    proof (cases "password_violation l = None")
      case False
      with Cons less.prems less.hyps [of "w\<lparr>typed := ls, trace := trace w @ [Getpass l]\<rparr>"]
      show ?thesis by (simp add: password_loop_violation)
    next
      case True
      show ?thesis
      proof (cases ls)
        case Nil
        with Cons True less.prems show ?thesis by (simp add: password_loop_eof2)
      next
        case (Cons c cs)
        show ?thesis
        proof (cases "l = c")
          case True
          with \<open>typed w = l # ls\<close> Cons \<open>password_violation l = None\<close> less.prems
          show ?thesis by (simp add: password_loop_confirmed)
        next
          case False
          with \<open>typed w = l # ls\<close> Cons \<open>password_violation l = None\<close> less.prems
            less.hyps [of "w\<lparr>typed := cs, trace := trace w @ [Getpass l, Getpass c]\<rparr>"]
          show ?thesis by (simp add: password_loop_mismatch)
        qed
      qed
    qed
  qed
qed

lemma password_loop_store:
  "database (snd (password_loop w)) = database w \<and>
   db_file (snd (password_loop w)) = db_file w"
proof (induction "length (typed w)" arbitrary: w rule: less_induct)
  case less
  show ?case
  proof (cases "typed w")
    case Nil
    then show ?thesis by (simp add: password_loop_eof)
  next
    case (Cons l ls)
    show ?thesis
    proof (cases "password_violation l = None")
      case False
      with Cons less.hyps [of "w\<lparr>typed := ls, trace := trace w @ [Getpass l]\<rparr>"]
      show ?thesis by (simp add: password_loop_violation)
    next
      case True
      show ?thesis
      proof (cases ls)
        case Nil
        with Cons True show ?thesis by (simp add: password_loop_eof2)
      next
        case (Cons c cs)
        show ?thesis
        proof (cases "l = c")
          case True
          with \<open>typed w = l # ls\<close> Cons \<open>password_violation l = None\<close>
          show ?thesis by (simp add: password_loop_confirmed)
        next
          case False
          with \<open>typed w = l # ls\<close> Cons \<open>password_violation l = None\<close>
            less.hyps [of "w\<lparr>typed := cs, trace := trace w @ [Getpass l, Getpass c]\<rparr>"]
          show ?thesis by (simp add: password_loop_mismatch)
        qed
      qed
    qed
  qed
qed

text \<open>
  C5. A password passes the checks exactly when it has at least 8 characters, an
  uppercase letter \<^verbatim>\<open>[A-Z]\<close>, a lowercase letter \<^verbatim>\<open>[a-z]\<close> and a digit
  \<^verbatim>\<open>[0-9]\<close>; when exactly one of the four rules is broken, the check that
  reports is the one of that rule. The password loop of registration and reset ends
  only with a password that passes, and does end with one that passes and is typed
  twice.
\<close>

theorem password_rules:
  "(password_violation p = None \<longleftrightarrow>
      8 \<le> length p \<and> (\<exists>c \<in> set p. upper_AZ c) \<and> (\<exists>c \<in> set p. lower_az c)
      \<and> (\<exists>c \<in> set p. digit_09 c))
   \<and> (length p < 8 \<and> (\<exists>c \<in> set p. upper_AZ c) \<and> (\<exists>c \<in> set p. lower_az c)
        \<and> (\<exists>c \<in> set p. digit_09 c) \<longrightarrow> password_violation p = Some TooShort)
   \<and> (8 \<le> length p \<and> \<not> (\<exists>c \<in> set p. upper_AZ c) \<and> (\<exists>c \<in> set p. lower_az c)
        \<and> (\<exists>c \<in> set p. digit_09 c) \<longrightarrow> password_violation p = Some MissingUppercase)
   \<and> (8 \<le> length p \<and> (\<exists>c \<in> set p. upper_AZ c) \<and> \<not> (\<exists>c \<in> set p. lower_az c)
        \<and> (\<exists>c \<in> set p. digit_09 c) \<longrightarrow> password_violation p = Some MissingLowercase)
   \<and> (8 \<le> length p \<and> (\<exists>c \<in> set p. upper_AZ c) \<and> (\<exists>c \<in> set p. lower_az c)
        \<and> \<not> (\<exists>c \<in> set p. digit_09 c) \<longrightarrow> password_violation p = Some MissingDigit)
   \<and> (\<forall>w w'. password_loop w = (Inr p, w') \<longrightarrow> password_violation p = None)
   \<and> (\<forall>w ls. typed w = p # p # ls \<and> password_violation p = None \<longrightarrow>
         password_loop w = (Inr p, w\<lparr>typed := ls, trace := trace w @ [Getpass p, Getpass p]\<rparr>))"
proof -
  have rules: "password_violation p = None \<longleftrightarrow>
      8 \<le> length p \<and> (\<exists>c \<in> set p. upper_AZ c) \<and> (\<exists>c \<in> set p. lower_az c)
      \<and> (\<exists>c \<in> set p. digit_09 c)"
    by (auto simp: password_violation_def re_search_def list_ex_iff)
  have short: "length p < 8 \<Longrightarrow> password_violation p = Some TooShort"
    by (simp add: password_violation_def)
  have upper: "8 \<le> length p \<Longrightarrow> \<not> (\<exists>c \<in> set p. upper_AZ c) \<Longrightarrow>
      password_violation p = Some MissingUppercase"
    by (simp add: password_violation_def re_search_def list_ex_iff)
  have lower: "8 \<le> length p \<Longrightarrow> (\<exists>c \<in> set p. upper_AZ c) \<Longrightarrow>
      \<not> (\<exists>c \<in> set p. lower_az c) \<Longrightarrow> password_violation p = Some MissingLowercase"
    by (simp add: password_violation_def re_search_def list_ex_iff)
  have digit: "8 \<le> length p \<Longrightarrow> (\<exists>c \<in> set p. upper_AZ c) \<Longrightarrow>
      (\<exists>c \<in> set p. lower_az c) \<Longrightarrow> \<not> (\<exists>c \<in> set p. digit_09 c) \<Longrightarrow>
      password_violation p = Some MissingDigit"
    by (simp add: password_violation_def re_search_def list_ex_iff)
  from rules short upper lower digit show ?thesis
    by (intro conjI allI impI) (blast intro: password_loop_accepts password_loop_confirmed)+
qed

lemmas class_defs = upper_AZ_def lower_az_def digit_09_def ord_def

theorem password_rules_witness:
  "password_violation ''Passw0rd'' = None
   \<and> length ''Pass0rd'' < 8 \<and> password_violation ''Pass0rd'' = Some TooShort
   \<and> password_violation ''passw0rd'' = Some MissingUppercase
   \<and> password_violation ''PASSW0RD'' = Some MissingLowercase
   \<and> password_violation ''Password'' = Some MissingDigit
   \<and> password_loop (alice_world [''Passw0rd'', ''Passw0rd'']) =
        (Inr ''Passw0rd'',
         (alice_world [])\<lparr>trace := [Getpass ''Passw0rd'', Getpass ''Passw0rd'']\<rparr>)"
proof -
  have ok: "password_violation ''Passw0rd'' = None"
    using password_rules [of "''Passw0rd''", THEN conjunct1] by (simp add: class_defs)
  have short: "password_violation ''Pass0rd'' = Some TooShort"
    using password_rules [of "''Pass0rd''", THEN conjunct2, THEN conjunct1]
    by (simp add: class_defs)
  have upper: "password_violation ''passw0rd'' = Some MissingUppercase"
    using password_rules [of "''passw0rd''", THEN conjunct2, THEN conjunct2, THEN conjunct1]
    by (simp add: class_defs)
  have lower: "password_violation ''PASSW0RD'' = Some MissingLowercase"
    using password_rules [of "''PASSW0RD''", THEN conjunct2, THEN conjunct2, THEN conjunct2,
      THEN conjunct1]
    by (simp add: class_defs)
  have digit: "password_violation ''Password'' = Some MissingDigit"
    using password_rules [of "''Password''", THEN conjunct2, THEN conjunct2, THEN conjunct2,
      THEN conjunct2, THEN conjunct1]
    by (simp add: class_defs)
  have loop: "password_loop (alice_world [''Passw0rd'', ''Passw0rd'']) =
        (Inr ''Passw0rd'',
         (alice_world [])\<lparr>trace := [Getpass ''Passw0rd'', Getpass ''Passw0rd'']\<rparr>)"
    using ok password_rules [of "''Passw0rd''", THEN conjunct2, THEN conjunct2, THEN conjunct2,
      THEN conjunct2, THEN conjunct2, THEN conjunct2, rule_format,
      of "alice_world [''Passw0rd'', ''Passw0rd'']" "[]"]
    by (simp add: alice_world_def world_of_def)
  from ok short upper lower digit loop show ?thesis by simp
qed

subsection \<open>The code loops\<close>

lemma range3: "[0..<3] = [0, 1, 2]"
  by (simp add: upt_rec)

text \<open>
  What the loop of \<^verbatim>\<open>authenticate\<close> does with the lines \<open>cs\<close> that wait: it reads
  up to the first line that is the code, at most as many lines as it has attempts.
\<close>

lemma auth_code_loop_result:
  "typed w = cs \<Longrightarrow>
   auth_code_loop v as w =
     (if v \<in> set (take (length as) cs) then
        (Inr True, w\<lparr>typed := tl (dropWhile (\<lambda>c. c \<noteq> v) cs),
                     trace := trace w @ map Input (takeWhile (\<lambda>c. c \<noteq> v) cs @ [v])\<rparr>)
      else if length as \<le> length cs then
        (Inr False, w\<lparr>typed := drop (length as) cs,
                      trace := trace w @ map Input (take (length as) cs)\<rparr>)
      else (Inl EOFError, w\<lparr>typed := [], trace := trace w @ map Input cs\<rparr>))"
proof (induction as arbitrary: w cs)
  case Nil
  then show ?case by simp
next
  case (Cons a as)
  show ?case
  proof (cases cs)
    case Nil
    with Cons.prems show ?thesis by simp
  next
    case (Cons c cs')
    with Cons.prems Cons.IH [of "w\<lparr>typed := cs', trace := trace w @ [Input c]\<rparr>" cs']
    show ?thesis by simp
  qed
qed

lemma register_code_loop_is_auth_code_loop:
  "register_code_loop v [0..<3] w = auth_code_loop v [0..<3] w"
proof (cases "typed w")
  case Nil
  then show ?thesis by (simp add: range3)
next
  case c1: (Cons c1 cs1)
  show ?thesis
  proof (cases cs1)
    case Nil
    with c1 show ?thesis by (simp add: range3)
  next
    case c2: (Cons c2 cs2)
    show ?thesis
    proof (cases cs2)
      case Nil
      with c1 c2 show ?thesis by (simp add: range3)
    next
      case (Cons c3 cs3)
      with c1 c2 show ?thesis by (simp add: range3)
    qed
  qed
qed

subsection \<open>The lockout check, case by case\<close>

lemma lockout_locked:
  "map_of (database w) u = Some ud \<Longrightarrow> locked_until ud = Some s \<Longrightarrow> now < strptime s \<Longrightarrow>
   check_account_lockout now u w = (True, w)"
  by (simp add: check_account_lockout_def)

lemma lockout_open:
  "map_of (database w) u = Some ud \<Longrightarrow> locked_until ud = None \<Longrightarrow>
   check_account_lockout now u w = (False, w)"
  by (simp add: check_account_lockout_def)

lemma lockout_expired:
  "map_of (database w) u = Some ud \<Longrightarrow> locked_until ud = Some s \<Longrightarrow> \<not> now < strptime s \<Longrightarrow>
   check_account_lockout now u w =
     (False, save_database (w\<lparr>database :=
        AList.update u (ud\<lparr>failed_attempts := 0, locked_until := None\<rparr>) (database w)\<rparr>))"
  by (simp add: check_account_lockout_def)

subsection \<open>Login\<close>

text \<open>
  C6. A login with a username that is not in the database is rejected at once, and a
  login to an account whose \<open>locked_until\<close> is set and still ahead of the clock is
  rejected too; in both cases the whole effect of \<^verbatim>\<open>authenticate\<close> is that the
  username line was read. The password line is still waiting in \<open>typed\<close>, the trace
  has no \<open>Getpass\<close> and no \<open>Checkpw\<close>, and the database, with its
  \<open>failed_attempts\<close>, and the file are what they were.
\<close>

theorem login_rejected_early:
  "(typed w = u # ls \<and> map_of (database w) u = None \<longrightarrow>
      authenticate ext now_check now_fail code w =
        (Inr False, w\<lparr>typed := ls, trace := trace w @ [Input u]\<rparr>))
   \<and> (typed w = u # ls \<and> map_of (database w) u = Some ud \<and> locked_until ud = Some s
        \<and> now_check < strptime s \<longrightarrow>
      authenticate ext now_check now_fail code w =
        (Inr False, w\<lparr>typed := ls, trace := trace w @ [Input u]\<rparr>))"
  by (simp add: authenticate_def lockout_locked)

theorem login_rejected_early_witness:
  "authenticate demo_externals 0 0 ''123456'' (alice_world [''bob'', ''Passw0rd'']) =
     (Inr False, (alice_world [''Passw0rd''])\<lparr>trace := [Input ''bob'']\<rparr>)
   \<and> authenticate demo_externals 899999999 899999999 ''123456''
       (world_of [(''alice01'', locked_alice 900)] [''alice01'', ''Passw0rd'']) =
     (Inr False,
      (world_of [(''alice01'', locked_alice 900)] [''Passw0rd''])\<lparr>trace := [Input ''alice01'']\<rparr>)"
  using
    login_rejected_early [THEN conjunct1, rule_format,
      of "alice_world [''bob'', ''Passw0rd'']" "''bob''" "[''Passw0rd'']"
         demo_externals 0 0 "''123456''"]
    login_rejected_early [THEN conjunct2, rule_format,
      of "world_of [(''alice01'', locked_alice 900)] [''alice01'', ''Passw0rd'']"
         "''alice01''" "[''Passw0rd'']" "locked_alice 900" 900 899999999
         demo_externals 899999999 "''123456''"]
  by (simp add: alice_world_def world_of_def locked_alice_def strptime_def)

subsection \<open>A wrong password\<close>

lemma update_order:
  "ud\<lparr>locked_until := a, failed_attempts := b\<rparr> = ud\<lparr>failed_attempts := b, locked_until := a\<rparr>"
  for ud :: user_data
  by simp

lemma locked_until_None_update:
  "locked_until ud = None \<Longrightarrow> ud\<lparr>locked_until := None\<rparr> = ud"
  by simp

text \<open>
  A login that passes the lockout check and then fails on the password: the result,
  the database, the file and the lines left. \<open>n\<close> is the counter the password check
  finds, which is 0 when the lockout check has just cleared an elapsed lock.
\<close>

lemma authenticate_wrong_password:
  assumes t: "typed w = u # p # ls"
    and u: "map_of (database w) u = Some ud"
    and unlocked: "\<forall>s. locked_until ud = Some s \<longrightarrow> \<not> now_check < strptime s"
    and wrong: "\<not> checkpw ext p (password_hash ud)"
    and n: "n = (if locked_until ud = None then failed_attempts ud else 0)"
    and w': "w' = snd (authenticate ext now_check now_fail code w)"
  shows "fst (authenticate ext now_check now_fail code w) = Inr False"
    and "database w' =
      AList.update u
        (ud\<lparr>failed_attempts := n + 1,
            locked_until :=
              (if 5 \<le> n + 1 then Some (strftime (now_fail + timedelta_minutes 15))
               else None)\<rparr>)
        (database w)"
    and "db_file w' = Some (database w')"
    and "typed w' = ls"
proof -
  have "fst (authenticate ext now_check now_fail code w) = Inr False
    \<and> database w' =
      AList.update u
        (ud\<lparr>failed_attempts := n + 1,
            locked_until :=
              (if 5 \<le> n + 1 then Some (strftime (now_fail + timedelta_minutes 15))
               else None)\<rparr>)
        (database w)
    \<and> db_file w' = Some (database w') \<and> typed w' = ls"
  proof (cases "locked_until ud")
    case None
    with t u wrong n w' show ?thesis
      by (simp add: authenticate_def lockout_open save_database_def Let_def
          max_failed_attempts_def lockout_duration_def locked_until_None_update)
  next
    case (Some s)
    with unlocked have "\<not> now_check < strptime s" by simp
    with Some t u wrong n w' show ?thesis
      by (simp add: authenticate_def lockout_expired save_database_def Let_def
          max_failed_attempts_def lockout_duration_def update_conv' update_order)
  qed
  then show "fst (authenticate ext now_check now_fail code w) = Inr False"
    and "database w' =
      AList.update u
        (ud\<lparr>failed_attempts := n + 1,
            locked_until :=
              (if 5 \<le> n + 1 then Some (strftime (now_fail + timedelta_minutes 15))
               else None)\<rparr>)
        (database w)"
    and "db_file w' = Some (database w')"
    and "typed w' = ls"
    by simp_all
qed


lemma logins_append: "logins ext (ts @ ts') w = logins ext ts' (logins ext ts w)"
  by (induction ts arbitrary: w) auto

text \<open>
  Wrong passwords for one user, login after login, as long as the counter stays below
  the threshold: each login adds one, and no lock is set.
\<close>

lemma logins_wrong_passwords:
  assumes "map_of (database w) u = Some ud"
    and "locked_until ud = None"
    and "typed w = concat (map (\<lambda>p. [u, p]) ps) @ ls"
    and "length ts = length ps"
    and "\<forall>p \<in> set ps. \<not> checkpw ext p (password_hash ud)"
    and "failed_attempts ud + int (length ps) < 5"
  shows "map_of (database (logins ext ts w)) u =
           Some (ud\<lparr>failed_attempts := failed_attempts ud + int (length ps)\<rparr>)
       \<and> typed (logins ext ts w) = ls"
  using assms
proof (induction ps arbitrary: w ud ts)
  case Nil
  then show ?case by simp
next
  case (Cons p ps)
  from Cons.prems(4) obtain t ts' where ts: "ts = t # ts'" and len: "length ts' = length ps"
    by (cases ts) auto
  obtain now_check now_fail code where t: "t = (now_check, now_fail, code)"
    by (cases t) auto
  define w1 where "w1 = snd (authenticate ext now_check now_fail code w)"
  define ud1 where "ud1 = ud\<lparr>failed_attempts := failed_attempts ud + 1\<rparr>"
  have typed: "typed w = u # p # (concat (map (\<lambda>p. [u, p]) ps) @ ls)"
    using Cons.prems(3) by simp
  have unlocked: "\<forall>s. locked_until ud = Some s \<longrightarrow> \<not> now_check < strptime s"
    using Cons.prems(2) by simp
  have wrong: "\<not> checkpw ext p (password_hash ud)"
    using Cons.prems(5) by simp
  have small: "\<not> 5 \<le> failed_attempts ud + 1"
    using Cons.prems(6) by simp
  have db1: "database w1 = AList.update u ud1 (database w)"
    using authenticate_wrong_password(2) [OF typed Cons.prems(1) unlocked wrong refl w1_def]
      Cons.prems(2) small
    by (simp add: ud1_def locked_until_None_update)
  have typed1: "typed w1 = concat (map (\<lambda>p. [u, p]) ps) @ ls"
    using authenticate_wrong_password(4) [OF typed Cons.prems(1) unlocked wrong refl w1_def] .
  have "map_of (database (logins ext ts' w1)) u =
           Some (ud1\<lparr>failed_attempts := failed_attempts ud1 + int (length ps)\<rparr>)
       \<and> typed (logins ext ts' w1) = ls"
  proof (rule Cons.IH)
    show "map_of (database w1) u = Some ud1" by (simp add: db1 update_conv')
    show "locked_until ud1 = None" using Cons.prems(2) by (simp add: ud1_def)
    show "typed w1 = concat (map (\<lambda>p. [u, p]) ps) @ ls" by (rule typed1)
    show "length ts' = length ps" by (rule len)
    show "\<forall>p \<in> set ps. \<not> checkpw ext p (password_hash ud1)"
      using Cons.prems(5) by (simp add: ud1_def)
    show "failed_attempts ud1 + int (length ps) < 5"
      using Cons.prems(6) by (simp add: ud1_def)
  qed
  then show ?case
    by (simp add: ts t w1_def [symmetric] ud1_def add.assoc)
qed



lemma wrong_password_step:
  assumes "typed w = u # p # ls" and "map_of (database w) u = Some ud"
    and "\<forall>s. locked_until ud = Some s \<longrightarrow> \<not> now_check < strptime s"
    and "\<not> checkpw ext p (password_hash ud)"
    and "n = (if locked_until ud = None then failed_attempts ud else 0)"
  shows "fst (authenticate ext now_check now_fail code w) = Inr False
    \<and> map_of (database (snd (authenticate ext now_check now_fail code w))) u =
        Some (ud\<lparr>failed_attempts := n + 1,
                 locked_until :=
                   (if 5 \<le> n + 1 then Some (strftime (now_fail + timedelta_minutes 15))
                    else None)\<rparr>)"
proof -
  have "fst (authenticate ext now_check now_fail code w) = Inr False"
    by (rule authenticate_wrong_password(1) [OF assms refl])
  moreover have "database (snd (authenticate ext now_check now_fail code w)) =
      AList.update u
        (ud\<lparr>failed_attempts := n + 1,
            locked_until :=
              (if 5 \<le> n + 1 then Some (strftime (now_fail + timedelta_minutes 15))
               else None)\<rparr>)
        (database w)"
    by (rule authenticate_wrong_password(2) [OF assms refl])
  ultimately show ?thesis by (simp only: update_conv' fun_upd_same simp_thms)
qed

lemma four_wrong_passwords:
  assumes "map_of (database w) u = Some ud" and "failed_attempts ud = 0"
    and "locked_until ud = None"
    and "typed w = concat (map (\<lambda>p. [u, p]) ps) @ ls"
    and "\<forall>p \<in> set ps. \<not> checkpw ext p (password_hash ud)"
    and "length ts = length ps" and "length ps \<le> 4"
  shows "map_of (database (logins ext ts w)) u =
      Some (ud\<lparr>failed_attempts := int (length ps), locked_until := None\<rparr>)"
    and "typed (logins ext ts w) = ls"
proof -
  have small: "failed_attempts ud + int (length ps) < 5"
    using assms(2,7) by simp
  note run = logins_wrong_passwords [OF assms(1) assms(3) assms(4) assms(6) assms(5) small]
  from run assms(2,3) show "map_of (database (logins ext ts w)) u =
      Some (ud\<lparr>failed_attempts := int (length ps), locked_until := None\<rparr>)"
    by (simp add: locked_until_None_update)
  from run show "typed (logins ext ts w) = ls" by simp
qed

lemma fifth_wrong_password:
  assumes "map_of (database w) u = Some ud" and "failed_attempts ud = 0"
    and "locked_until ud = None"
    and "typed w = concat (map (\<lambda>p. [u, p]) ps) @ u # p5 # ls"
    and "\<forall>p \<in> set ps. \<not> checkpw ext p (password_hash ud)"
    and "length ts = length ps" and "length ps = 4"
    and "\<not> checkpw ext p5 (password_hash ud)"
  shows "map_of (database (logins ext (ts @ [(t1, t2, c)]) w)) u =
          Some (ud\<lparr>failed_attempts := 5,
                   locked_until := Some (strftime (t2 + timedelta_minutes 15))\<rparr>)"
proof -
  let ?w4 = "logins ext ts w"
  let ?ud4 = "ud\<lparr>failed_attempts := int (length ps), locked_until := None\<rparr>"
  have le: "length ps \<le> 4" using assms(7) by simp
  have db4: "map_of (database ?w4) u = Some ?ud4"
    by (rule four_wrong_passwords(1) [OF assms(1-6) le])
  have typed4: "typed ?w4 = u # p5 # ls"
    by (rule four_wrong_passwords(2) [OF assms(1-6) le])
  have unlocked: "\<forall>s. locked_until ?ud4 = Some s \<longrightarrow> \<not> t1 < strptime s" by simp
  have wrong: "\<not> checkpw ext p5 (password_hash ?ud4)" using assms(8) by simp
  have n: "4 = (if locked_until ?ud4 = None then failed_attempts ?ud4 else 0)"
    using assms(7) by simp
  have "map_of (database (snd (authenticate ext t1 t2 c ?w4))) u =
        Some (?ud4\<lparr>failed_attempts := 4 + 1,
                 locked_until :=
                   (if (5::int) \<le> 4 + 1 then Some (strftime (t2 + timedelta_minutes 15))
                    else None)\<rparr>)"
    using wrong_password_step [OF typed4 db4 unlocked wrong n, of t2 c] by (rule conjunct2)
  then show ?thesis by (simp add: logins_append)
qed


text \<open>
  C1. A login that fails on the password adds one to \<open>failed_attempts\<close> (to the
  counter as the lockout check leaves it: 0 after it cleared an elapsed lock). When the
  new count reaches 5, \<open>locked_until\<close> is set to the clock reading of the failure
  plus 15 minutes, in the stored format of whole seconds, and the counter stays at the
  new count; below 5 no lock is set. From a counter of 0, up to four failures in a row
  leave \<open>locked_until\<close> unset, and the fifth sets it, with the counter at 5.
\<close>

theorem wrong_password_lockout:
  "(typed w = u # p # ls \<and> map_of (database w) u = Some ud
      \<and> (\<forall>s. locked_until ud = Some s \<longrightarrow> \<not> now_check < strptime s)
      \<and> \<not> checkpw ext p (password_hash ud)
      \<and> n = (if locked_until ud = None then failed_attempts ud else 0) \<longrightarrow>
    fst (authenticate ext now_check now_fail code w) = Inr False
    \<and> map_of (database (snd (authenticate ext now_check now_fail code w))) u =
        Some (ud\<lparr>failed_attempts := n + 1,
                 locked_until :=
                   (if 5 \<le> n + 1 then Some (strftime (now_fail + timedelta_minutes 15))
                    else None)\<rparr>))
   \<and> (map_of (database w) u = Some ud \<and> failed_attempts ud = 0 \<and> locked_until ud = None
      \<and> typed w = concat (map (\<lambda>p. [u, p]) ps) @ ls
      \<and> (\<forall>p \<in> set ps. \<not> checkpw ext p (password_hash ud))
      \<and> length ts = length ps \<and> length ps \<le> 4 \<longrightarrow>
    map_of (database (logins ext ts w)) u =
      Some (ud\<lparr>failed_attempts := int (length ps), locked_until := None\<rparr>))
   \<and> (map_of (database w) u = Some ud \<and> failed_attempts ud = 0 \<and> locked_until ud = None
      \<and> typed w = concat (map (\<lambda>p. [u, p]) ps) @ u # p # ls
      \<and> (\<forall>p \<in> set ps. \<not> checkpw ext p (password_hash ud))
      \<and> length ts = length ps \<and> length ps = 4
      \<and> \<not> checkpw ext p (password_hash ud) \<longrightarrow>
    map_of (database (logins ext (ts @ [(now_check, now_fail, code)]) w)) u =
      Some (ud\<lparr>failed_attempts := 5,
               locked_until := Some (strftime (now_fail + timedelta_minutes 15))\<rparr>))"
proof (intro conjI impI)
  assume "typed w = u # p # ls \<and> map_of (database w) u = Some ud
      \<and> (\<forall>s. locked_until ud = Some s \<longrightarrow> \<not> now_check < strptime s)
      \<and> \<not> checkpw ext p (password_hash ud)
      \<and> n = (if locked_until ud = None then failed_attempts ud else 0)"
  then have step: "fst (authenticate ext now_check now_fail code w) = Inr False
    \<and> map_of (database (snd (authenticate ext now_check now_fail code w))) u =
        Some (ud\<lparr>failed_attempts := n + 1,
                 locked_until :=
                   (if 5 \<le> n + 1 then Some (strftime (now_fail + timedelta_minutes 15))
                    else None)\<rparr>)"
    by (elim conjE) (rule wrong_password_step)
  from step show "fst (authenticate ext now_check now_fail code w) = Inr False"
    by (rule conjunct1)
  from step show "map_of (database (snd (authenticate ext now_check now_fail code w))) u =
        Some (ud\<lparr>failed_attempts := n + 1,
                 locked_until :=
                   (if 5 \<le> n + 1 then Some (strftime (now_fail + timedelta_minutes 15))
                    else None)\<rparr>)"
    by (rule conjunct2)
next
  assume "map_of (database w) u = Some ud \<and> failed_attempts ud = 0 \<and> locked_until ud = None
      \<and> typed w = concat (map (\<lambda>p. [u, p]) ps) @ ls
      \<and> (\<forall>p \<in> set ps. \<not> checkpw ext p (password_hash ud))
      \<and> length ts = length ps \<and> length ps \<le> 4"
  then show "map_of (database (logins ext ts w)) u =
      Some (ud\<lparr>failed_attempts := int (length ps), locked_until := None\<rparr>)"
    by (elim conjE) (rule four_wrong_passwords(1))
next
  assume "map_of (database w) u = Some ud \<and> failed_attempts ud = 0 \<and> locked_until ud = None
      \<and> typed w = concat (map (\<lambda>p. [u, p]) ps) @ u # p # ls
      \<and> (\<forall>p \<in> set ps. \<not> checkpw ext p (password_hash ud))
      \<and> length ts = length ps \<and> length ps = 4
      \<and> \<not> checkpw ext p (password_hash ud)"
  then show "map_of (database (logins ext (ts @ [(now_check, now_fail, code)]) w)) u =
      Some (ud\<lparr>failed_attempts := 5,
               locked_until := Some (strftime (now_fail + timedelta_minutes 15))\<rparr>)"
    by (elim conjE) (rule fifth_wrong_password)
qed


theorem wrong_password_lockout_witness:
  "fst (authenticate demo_externals 0 15500000 ''123456''
          (alice_world [''alice01'', ''nope''])) = Inr False
   \<and> map_of (database (snd (authenticate demo_externals 0 15500000 ''123456''
          (alice_world [''alice01'', ''nope''])))) ''alice01''
       = Some (alice\<lparr>failed_attempts := 1\<rparr>)
   \<and> map_of (database (logins demo_externals
          [(0, 0, ''1''), (0, 0, ''2''), (0, 0, ''3''), (0, 0, ''4'')]
          (alice_world [''alice01'', ''nope'', ''alice01'', ''nope'', ''alice01'', ''nope'',
             ''alice01'', ''nope'']))) ''alice01''
       = Some (alice\<lparr>failed_attempts := 4\<rparr>)
   \<and> map_of (database (logins demo_externals
          [(0, 0, ''1''), (0, 0, ''2''), (0, 0, ''3''), (0, 0, ''4''), (0, 15500000, ''5'')]
          (alice_world [''alice01'', ''nope'', ''alice01'', ''nope'', ''alice01'', ''nope'',
             ''alice01'', ''nope'', ''alice01'', ''nope'']))) ''alice01''
       = Some (alice\<lparr>failed_attempts := 5, locked_until := Some 915\<rparr>)"
proof -
  have a: "map_of (database (alice_world xs)) ''alice01'' = Some alice" for xs
    by (simp add: alice_world_def world_of_def)
  have b: "failed_attempts alice = 0" "locked_until alice = None"
    "\<not> checkpw demo_externals ''nope'' (password_hash alice)"
    by (simp_all add: alice_def demo_externals_def)
  have t: "typed (alice_world xs) = xs" for xs
    by (simp add: alice_world_def world_of_def)
  have one: "fst (authenticate demo_externals 0 15500000 ''123456''
          (alice_world [''alice01'', ''nope''])) = Inr False
   \<and> map_of (database (snd (authenticate demo_externals 0 15500000 ''123456''
          (alice_world [''alice01'', ''nope''])))) ''alice01''
       = Some (alice\<lparr>failed_attempts := 1\<rparr>)"
    using wrong_password_lockout [
        where w = "alice_world [''alice01'', ''nope'']" and u = "''alice01''"
          and p = "''nope''" and ls = "[]" and ud = alice and now_check = 0
          and ext = demo_externals and n = 0 and now_fail = 15500000 and code = "''123456''",
        THEN conjunct1]
      a b t
    by (simp add: locked_until_None_update)
  have four: "map_of (database (logins demo_externals
          [(0, 0, ''1''), (0, 0, ''2''), (0, 0, ''3''), (0, 0, ''4'')]
          (alice_world [''alice01'', ''nope'', ''alice01'', ''nope'', ''alice01'', ''nope'',
             ''alice01'', ''nope'']))) ''alice01''
       = Some (alice\<lparr>failed_attempts := 4\<rparr>)"
    using wrong_password_lockout [
        where w = "alice_world [''alice01'', ''nope'', ''alice01'', ''nope'', ''alice01'',
            ''nope'', ''alice01'', ''nope'']"
          and u = "''alice01''" and ud = alice
          and ps = "[''nope'', ''nope'', ''nope'', ''nope'']" and ls = "[]"
          and ext = demo_externals
          and ts = "[(0, 0, ''1''), (0, 0, ''2''), (0, 0, ''3''), (0, 0, ''4'')]",
        THEN conjunct2, THEN conjunct1]
      a b t
    by (simp add: locked_until_None_update)
  have five: "map_of (database (logins demo_externals
          [(0, 0, ''1''), (0, 0, ''2''), (0, 0, ''3''), (0, 0, ''4''), (0, 15500000, ''5'')]
          (alice_world [''alice01'', ''nope'', ''alice01'', ''nope'', ''alice01'', ''nope'',
             ''alice01'', ''nope'', ''alice01'', ''nope'']))) ''alice01''
       = Some (alice\<lparr>failed_attempts := 5, locked_until := Some 915\<rparr>)"
    using wrong_password_lockout [
        where w = "alice_world [''alice01'', ''nope'', ''alice01'', ''nope'', ''alice01'',
            ''nope'', ''alice01'', ''nope'', ''alice01'', ''nope'']"
          and u = "''alice01''" and ud = alice
          and ps = "[''nope'', ''nope'', ''nope'', ''nope'']" and p = "''nope''" and ls = "[]"
          and ext = demo_externals
          and ts = "[(0, 0, ''1''), (0, 0, ''2''), (0, 0, ''3''), (0, 0, ''4'')]"
          and now_check = 0 and now_fail = 15500000 and code = "''5''",
        THEN conjunct2, THEN conjunct2]
      a b t
    by (simp add: strftime_def timedelta_minutes_def)
  from one four five show ?thesis by simp
qed

subsection \<open>A right password\<close>

text \<open>
  A login that passes the lockout check and the password check, up to the point where
  the code has been sent: the counter is 0 in the database and in the file, and the
  code loop starts.
\<close>

lemma authenticate_right_password:
  assumes t: "typed w = u # p # cs"
    and u: "map_of (database w) u = Some ud"
    and unlocked: "\<forall>s. locked_until ud = Some s \<longrightarrow> \<not> now_check < strptime s"
    and right: "checkpw ext p (password_hash ud)"
    and db': "db' = AList.update u (ud\<lparr>failed_attempts := 0, locked_until := None\<rparr>) (database w)"
  shows "authenticate ext now_check now_fail code w =
     auth_code_loop code [0..<3]
       (w\<lparr>typed := cs, database := db', db_file := Some db',
          trace := trace w @ Input u #
            (case locked_until ud of None \<Rightarrow> [] | Some s \<Rightarrow> [Saved db']) @
            [Getpass p, Checkpw p (password_hash ud), Saved db',
             Code_sent (email ud) code]\<rparr>)"
proof (cases "locked_until ud")
  case None
  with t u right db' show ?thesis
    by (simp add: authenticate_def lockout_open save_database_def Let_def
        send_verification_code_def locked_until_None_update)
next
  case (Some s)
  with unlocked have "\<not> now_check < strptime s" by simp
  with Some t u right db' show ?thesis
    by (simp add: authenticate_def lockout_expired save_database_def Let_def
        send_verification_code_def update_conv' update_order)
qed

lemma auth_code_loop_three_wrong:
  "typed w = c1 # c2 # c3 # ls \<Longrightarrow> c1 \<noteq> v \<Longrightarrow> c2 \<noteq> v \<Longrightarrow> c3 \<noteq> v \<Longrightarrow>
   auth_code_loop v [0..<3] w =
     (Inr False, w\<lparr>typed := ls, trace := trace w @ [Input c1, Input c2, Input c3]\<rparr>)"
  by (simp add: range3)

text \<open>
  C7. In \<^verbatim>\<open>authenticate\<close>, after the right password, \<open>failed_attempts\<close> is set to
  0 and the database is saved before the code is sent: in the trace the \<open>Saved\<close> of
  the database with the counter at 0 stands before \<open>Code_sent\<close>. Three wrong codes
  then end the flow with \<^verbatim>\<open>False\<close>; after \<open>Code_sent\<close> the trace has the three
  inputs only, and the database and the file still hold the entry with
  \<open>failed_attempts\<close> 0.
\<close>

theorem wrong_codes_keep_reset_counter:
  "typed w = u # p # c1 # c2 # c3 # ls \<and> map_of (database w) u = Some ud
     \<and> (\<forall>s. locked_until ud = Some s \<longrightarrow> \<not> now_check < strptime s)
     \<and> checkpw ext p (password_hash ud)
     \<and> c1 \<noteq> code \<and> c2 \<noteq> code \<and> c3 \<noteq> code
     \<and> db' = AList.update u (ud\<lparr>failed_attempts := 0, locked_until := None\<rparr>) (database w)
   \<longrightarrow>
   authenticate ext now_check now_fail code w =
     (Inr False,
      w\<lparr>typed := ls, database := db', db_file := Some db',
        trace := trace w @ Input u #
          (case locked_until ud of None \<Rightarrow> [] | Some s \<Rightarrow> [Saved db']) @
          [Getpass p, Checkpw p (password_hash ud), Saved db', Code_sent (email ud) code,
           Input c1, Input c2, Input c3]\<rparr>)
   \<and> map_of db' u = Some (ud\<lparr>failed_attempts := 0, locked_until := None\<rparr>)
   \<and> failed_attempts (ud\<lparr>failed_attempts := 0, locked_until := None\<rparr>) = 0"
proof (intro impI, elim conjE)
  assume t: "typed w = u # p # c1 # c2 # c3 # ls"
    and u: "map_of (database w) u = Some ud"
    and unlocked: "\<forall>s. locked_until ud = Some s \<longrightarrow> \<not> now_check < strptime s"
    and right: "checkpw ext p (password_hash ud)"
    and wrong: "c1 \<noteq> code" "c2 \<noteq> code" "c3 \<noteq> code"
    and db': "db' = AList.update u (ud\<lparr>failed_attempts := 0, locked_until := None\<rparr>) (database w)"
  have "authenticate ext now_check now_fail code w =
     (Inr False,
      w\<lparr>typed := ls, database := db', db_file := Some db',
        trace := trace w @ Input u #
          (case locked_until ud of None \<Rightarrow> [] | Some s \<Rightarrow> [Saved db']) @
          [Getpass p, Checkpw p (password_hash ud), Saved db', Code_sent (email ud) code,
           Input c1, Input c2, Input c3]\<rparr>)"
    using wrong
    by (simp add: authenticate_right_password [OF t u unlocked right db']
        auth_code_loop_three_wrong)
  moreover have "map_of db' u = Some (ud\<lparr>failed_attempts := 0, locked_until := None\<rparr>)"
    by (simp add: db' update_conv')
  ultimately show "authenticate ext now_check now_fail code w =
     (Inr False,
      w\<lparr>typed := ls, database := db', db_file := Some db',
        trace := trace w @ Input u #
          (case locked_until ud of None \<Rightarrow> [] | Some s \<Rightarrow> [Saved db']) @
          [Getpass p, Checkpw p (password_hash ud), Saved db', Code_sent (email ud) code,
           Input c1, Input c2, Input c3]\<rparr>)
   \<and> map_of db' u = Some (ud\<lparr>failed_attempts := 0, locked_until := None\<rparr>)
   \<and> failed_attempts (ud\<lparr>failed_attempts := 0, locked_until := None\<rparr>) = 0"
    by simp
qed

theorem wrong_codes_keep_reset_counter_witness:
  "authenticate demo_externals 0 0 ''123456''
     (world_of [(''alice01'', alice\<lparr>failed_attempts := 3\<rparr>)]
        [''alice01'', ''Passw0rd'', ''111111'', ''222222'', ''333333''])
   = (Inr False,
      \<lparr>database = [(''alice01'', alice)], db_file = Some [(''alice01'', alice)],
       typed = [],
       trace = [Input ''alice01'', Getpass ''Passw0rd'', Checkpw ''Passw0rd'' ''#Passw0rd'',
                Saved [(''alice01'', alice)], Code_sent ''a@x.com'' ''123456'',
                Input ''111111'', Input ''222222'', Input ''333333'']\<rparr>)
   \<and> failed_attempts alice = 0"
  using wrong_codes_keep_reset_counter [
      where w = "world_of [(''alice01'', alice\<lparr>failed_attempts := 3\<rparr>)]
        [''alice01'', ''Passw0rd'', ''111111'', ''222222'', ''333333'']"
        and u = "''alice01''" and p = "''Passw0rd''" and ?c1.0 = "''111111''"
        and ?c2.0 = "''222222''" and ?c3.0 = "''333333''" and ls = "[]"
        and ud = "alice\<lparr>failed_attempts := 3\<rparr>" and now_check = 0 and now_fail = 0
        and ext = demo_externals and code = "''123456''"
        and db' = "[(''alice01'', alice)]"]
  by (simp add: world_of_def alice_def demo_externals_def)

subsection \<open>Password reset\<close>




lemma reset_hash_error:
  assumes t: "typed w = u # code # p # p # ls"
    and u: "map_of (database w) u = Some ud"
    and unlocked: "\<forall>s. locked_until ud = Some s \<longrightarrow> \<not> now_check < strptime s"
    and ok: "password_violation p = None"
    and raised: "hashpw ext p salt = Inl e"
    and w': "w' = snd (reset_password ext now_check code salt w)"
  shows "fst (reset_password ext now_check code salt w) = Inl e
    \<and> (\<exists>ud'. map_of (database w') u = Some ud' \<and> password_hash ud' = password_hash ud)"
proof (cases "locked_until ud")
  case None
  with t u ok raised w' show ?thesis
    by (simp add: reset_password_def lockout_open send_verification_code_def
        password_loop_confirmed)
next
  case (Some s)
  with unlocked have "\<not> now_check < strptime s" by simp
  with Some t u ok raised w' show ?thesis
    by (simp add: reset_password_def lockout_expired send_verification_code_def
        password_loop_confirmed save_database_def update_conv')
qed




subsection \<open>The loops of registration\<close>

lemma username_loop_eof:
  "typed w = [] \<Longrightarrow> username_loop w = (Inl EOFError, w)"
  by (subst username_loop.simps) simp

lemma username_loop_again:
  "typed w = l # ls \<Longrightarrow>
   length l < 4 \<or> \<not> username_match l \<or> map_of (database w) l \<noteq> None \<Longrightarrow>
   username_loop w = username_loop (w\<lparr>typed := ls, trace := trace w @ [Input l]\<rparr>)"
  by (subst username_loop.simps) auto

lemma username_loop_accept:
  "typed w = l # ls \<Longrightarrow> 4 \<le> length l \<Longrightarrow> username_match l \<Longrightarrow>
   map_of (database w) l = None \<Longrightarrow>
   username_loop w = (Inr l, w\<lparr>typed := ls, trace := trace w @ [Input l]\<rparr>)"
  by (subst username_loop.simps) simp

lemma username_loop_store:
  "database (snd (username_loop w)) = database w \<and>
   db_file (snd (username_loop w)) = db_file w"
proof (induction "length (typed w)" arbitrary: w rule: less_induct)
  case less
  show ?case
  proof (cases "typed w")
    case Nil
    then show ?thesis by (simp add: username_loop_eof)
  next
    case (Cons l ls)
    show ?thesis
    proof (cases "length l < 4 \<or> \<not> username_match l \<or> map_of (database w) l \<noteq> None")
      case True
      with Cons less.hyps [of "w\<lparr>typed := ls, trace := trace w @ [Input l]\<rparr>"]
      show ?thesis by (simp add: username_loop_again)
    next
      case False
      with Cons show ?thesis by (simp add: username_loop_accept)
    qed
  qed
qed

lemma auth_code_loop_store:
  "database (snd (auth_code_loop v as w)) = database w \<and>
   db_file (snd (auth_code_loop v as w)) = db_file w"
  by (simp add: auth_code_loop_result [OF refl])

lemma email_loop_eof:
  "typed w = [] \<Longrightarrow> email_loop ext code w = (Inl EOFError, w)"
  by (subst email_loop.simps) simp

lemma email_loop_again:
  "typed w = a # ls \<Longrightarrow> \<not> email_match ext a \<Longrightarrow>
   email_loop ext code w =
     email_loop ext code (w\<lparr>typed := ls, trace := trace w @ [Input a]\<rparr>)"
  by (subst email_loop.simps) simp

lemma email_loop_verify:
  "typed w = a # ls \<Longrightarrow> email_match ext a \<Longrightarrow>
   email_loop ext code w =
     (case auth_code_loop code [0..<3]
             (w\<lparr>typed := ls, trace := trace w @ [Input a, Code_sent a code]\<rparr>) of
        (Inl e, w3) \<Rightarrow> (Inl e, w3)
      | (Inr verified, w3) \<Rightarrow> if verified then (Inr (Some a), w3) else (Inr None, w3))"
  by (subst email_loop.simps)
     (simp add: send_verification_code_def register_code_loop_is_auth_code_loop)

lemma email_loop_store:
  "database (snd (email_loop ext code w)) = database w \<and>
   db_file (snd (email_loop ext code w)) = db_file w"
proof (induction "length (typed w)" arbitrary: w rule: less_induct)
  case less
  show ?case
  proof (cases "typed w")
    case Nil
    then show ?thesis by (simp add: email_loop_eof)
  next
    case (Cons a ls)
    show ?thesis
    proof (cases "email_match ext a")
      case False
      with Cons less.hyps [of "w\<lparr>typed := ls, trace := trace w @ [Input a]\<rparr>"]
      show ?thesis by (simp add: email_loop_again)
    next
      case True
      let ?w2 = "w\<lparr>typed := ls, trace := trace w @ [Input a, Code_sent a code]\<rparr>"
      from auth_code_loop_store [of code "[0..<3]" ?w2] Cons True
      show ?thesis
        by (cases "auth_code_loop code [0..<3] ?w2")
           (auto simp: email_loop_verify split: sum.splits)
    qed
  qed
qed

text \<open>
  Registration up to the code loop, for a first line that is accepted as username and
  a second line that is accepted as address.
\<close>

lemma register_user_verify:
  assumes "typed w = u # a # cs" and "4 \<le> length u" and "username_match u"
    and "map_of (database w) u = None" and "email_match ext a"
  shows "register_user ext code salt now w =
     (case auth_code_loop code [0..<3]
             (w\<lparr>typed := cs, trace := trace w @ [Input u, Input a, Code_sent a code]\<rparr>) of
        (Inl e, w2) \<Rightarrow> (Inl e, w2)
      | (Inr verified, w2) \<Rightarrow>
          if verified then
            (case password_loop w2 of
               (Inl e, w3) \<Rightarrow> (Inl e, w3)
             | (Inr password, w3) \<Rightarrow>
                 (case hashpw ext password salt of
                    Inl e \<Rightarrow> (Inl e, w3)
                  | Inr hashed_password \<Rightarrow>
                      (Inr True,
                       save_database
                         (w3\<lparr>database :=
                            AList.update u
                              \<lparr>password_hash = hashed_password, email = a,
                               failed_attempts = 0, locked_until = None,
                               registered_on = strftime now\<rparr>
                              (database w3)\<rparr>))))
          else (Inr False, w2))"
  using assms
  by (simp add: register_user_def username_loop_accept email_loop_verify Let_def
      split: prod.splits sum.splits)

subsection \<open>Registration\<close>

lemma register_user_failed_store:
  assumes "fst (register_user ext code salt now w) \<noteq> Inr True"
  shows "database (snd (register_user ext code salt now w)) = database w
       \<and> db_file (snd (register_user ext code salt now w)) = db_file w"
proof -
  obtain r1 w1 where 1: "username_loop w = (r1, w1)" by force
  obtain r2 w2 where 2: "email_loop ext code w1 = (r2, w2)" by force
  obtain r3 w3 where 3: "password_loop w2 = (r3, w3)" by force
  have s1: "database w1 = database w \<and> db_file w1 = db_file w"
    using username_loop_store [of w] 1 by simp
  have s2: "database w2 = database w1 \<and> db_file w2 = db_file w1"
    using email_loop_store [of ext code w1] 2 by simp
  have s3: "database w3 = database w2 \<and> db_file w3 = db_file w2"
    using password_loop_store [of w2] 3 by simp
  from assms 1 2 3 s1 s2 s3 show ?thesis
    by (auto simp: register_user_def Let_def split: sum.splits option.splits)
qed

lemma register_user_three_wrong:
  assumes "typed w = u # a # c1 # c2 # c3 # ls" and "4 \<le> length u" and "username_match u"
    and "map_of (database w) u = None" and "email_match ext a"
    and "c1 \<noteq> code" and "c2 \<noteq> code" and "c3 \<noteq> code"
  shows "register_user ext code salt now w =
     (Inr False,
      w\<lparr>typed := ls,
        trace := trace w @ [Input u, Input a, Code_sent a code, Input c1, Input c2, Input c3]\<rparr>)"
  using assms(6-8)
  by (simp add: register_user_verify [OF assms(1-5)] auth_code_loop_three_wrong)

text \<open>
  C8. When registration has a username and an address and the first three codes typed
  are all wrong, \<^verbatim>\<open>register_user\<close> returns \<^verbatim>\<open>False\<close>, and all it has done is read
  the five lines and send the code: the database and the file are untouched and the
  trace has no \<open>Saved\<close>. More generally, whenever \<^verbatim>\<open>register_user\<close> does not return
  \<^verbatim>\<open>True\<close>, the database and the file are what they were before the flow.
\<close>

theorem failed_registration_creates_nothing:
  "(typed w = u # a # c1 # c2 # c3 # ls \<and> 4 \<le> length u \<and> username_match u
      \<and> map_of (database w) u = None \<and> email_match ext a
      \<and> c1 \<noteq> code \<and> c2 \<noteq> code \<and> c3 \<noteq> code \<longrightarrow>
    register_user ext code salt now w =
      (Inr False,
       w\<lparr>typed := ls,
         trace := trace w @
           [Input u, Input a, Code_sent a code, Input c1, Input c2, Input c3]\<rparr>))
   \<and> (fst (register_user ext code salt now w) \<noteq> Inr True \<longrightarrow>
        database (snd (register_user ext code salt now w)) = database w
        \<and> db_file (snd (register_user ext code salt now w)) = db_file w)"
proof (intro conjI impI)
  assume "typed w = u # a # c1 # c2 # c3 # ls \<and> 4 \<le> length u \<and> username_match u
      \<and> map_of (database w) u = None \<and> email_match ext a
      \<and> c1 \<noteq> code \<and> c2 \<noteq> code \<and> c3 \<noteq> code"
  then show "register_user ext code salt now w =
      (Inr False,
       w\<lparr>typed := ls,
         trace := trace w @
           [Input u, Input a, Code_sent a code, Input c1, Input c2, Input c3]\<rparr>)"
    by (elim conjE) (rule register_user_three_wrong)
next
  assume a: "fst (register_user ext code salt now w) \<noteq> Inr True"
  from register_user_failed_store [OF a]
  show "database (snd (register_user ext code salt now w)) = database w"
    by (rule conjunct1)
  from register_user_failed_store [OF a]
  show "db_file (snd (register_user ext code salt now w)) = db_file w"
    by (rule conjunct2)
qed

lemma username_match_bob: "username_match ''bob99''"
  by (simp add: username_match_def username_char_def class_defs)

theorem failed_registration_creates_nothing_witness:
  "register_user demo_externals ''123456'' ''salt'' 0
     (alice_world [''bob99'', ''b@x.com'', ''111111'', ''222222'', ''333333'']) =
     (Inr False,
      \<lparr>database = [(''alice01'', alice)], db_file = Some [(''alice01'', alice)],
       typed = [],
       trace = [Input ''bob99'', Input ''b@x.com'', Code_sent ''b@x.com'' ''123456'',
                Input ''111111'', Input ''222222'', Input ''333333'']\<rparr>)
   \<and> fst (register_user demo_externals ''123456'' ''salt'' 0 (alice_world [''bob99''])) =
       Inl EOFError
   \<and> database (snd (register_user demo_externals ''123456'' ''salt'' 0
        (alice_world [''bob99'']))) = [(''alice01'', alice)]
   \<and> db_file (snd (register_user demo_externals ''123456'' ''salt'' 0
        (alice_world [''bob99'']))) = Some [(''alice01'', alice)]"
proof -
  have a: "register_user demo_externals ''123456'' ''salt'' 0
     (alice_world [''bob99'', ''b@x.com'', ''111111'', ''222222'', ''333333'']) =
     (Inr False,
      \<lparr>database = [(''alice01'', alice)], db_file = Some [(''alice01'', alice)],
       typed = [],
       trace = [Input ''bob99'', Input ''b@x.com'', Code_sent ''b@x.com'' ''123456'',
                Input ''111111'', Input ''222222'', Input ''333333'']\<rparr>)"
    using username_match_bob
      failed_registration_creates_nothing [
        where w = "alice_world [''bob99'', ''b@x.com'', ''111111'', ''222222'', ''333333'']"
          and u = "''bob99''" and a = "''b@x.com''" and ?c1.0 = "''111111''"
          and ?c2.0 = "''222222''" and ?c3.0 = "''333333''" and ls = "[]"
          and ext = demo_externals and code = "''123456''" and salt = "''salt''" and now = 0,
        THEN conjunct1]
    by (simp add: alice_world_def world_of_def demo_externals_def)
  have eof: "fst (register_user demo_externals ''123456'' ''salt'' 0 (alice_world [''bob99''])) =
       Inl EOFError"
    using username_match_bob
    by (simp add: register_user_def username_loop_accept email_loop_eof alice_world_def
        world_of_def)
  have b: "database (snd (register_user demo_externals ''123456'' ''salt'' 0
        (alice_world [''bob99'']))) = [(''alice01'', alice)]
     \<and> db_file (snd (register_user demo_externals ''123456'' ''salt'' 0
        (alice_world [''bob99'']))) = Some [(''alice01'', alice)]"
    using eof
      failed_registration_creates_nothing [
        where w = "alice_world [''bob99'']" and ext = demo_externals and code = "''123456''"
          and salt = "''salt''" and now = 0, THEN conjunct2]
    by (simp add: alice_world_def world_of_def)
  from a eof b show ?thesis by simp
qed

subsection \<open>The attempts at the verification code\<close>

lemma auth_code_loop_fst:
  "typed w = cs \<Longrightarrow>
   fst (auth_code_loop v [0..<3] w) =
     (if v \<in> set (take 3 cs) then Inr True
      else if 3 \<le> length cs then Inr False else Inl EOFError)"
  by (simp add: auth_code_loop_result)

lemma authenticate_attempts:
  assumes "typed w = u # p # cs" and "map_of (database w) u = Some ud"
    and "\<forall>s. locked_until ud = Some s \<longrightarrow> \<not> now_check < strptime s"
    and "checkpw ext p (password_hash ud)"
  shows "fst (authenticate ext now_check now_fail code w) =
     (if code \<in> set (take 3 cs) then Inr True
      else if 3 \<le> length cs then Inr False else Inl EOFError)"
  by (simp add: authenticate_right_password [OF assms refl] auth_code_loop_fst)

lemma register_user_attempts:
  assumes "typed w = u # a # cs" and "4 \<le> length u" and "username_match u"
    and "map_of (database w) u = None" and "email_match ext a"
  shows "fst (register_user ext code salt now w) = Inr False \<longleftrightarrow>
     code \<notin> set (take 3 cs) \<and> 3 \<le> length cs"
proof -
  let ?w2 = "w\<lparr>typed := cs, trace := trace w @ [Input u, Input a, Code_sent a code]\<rparr>"
  obtain r w3 where loop: "auth_code_loop code [0..<3] ?w2 = (r, w3)" by force
  have r: "r = (if code \<in> set (take 3 cs) then Inr True
      else if 3 \<le> length cs then Inr False else Inl EOFError)"
    using auth_code_loop_fst [of ?w2 cs code] loop by simp
  obtain r' w4 where pw: "password_loop w3 = (r', w4)" by force
  show ?thesis
    by (cases r')
       (simp_all add: register_user_verify [OF assms] loop r pw split: sum.splits)
qed

lemma reset_wrong_code:
  assumes t: "typed w = u # c # ls" and u: "map_of (database w) u = Some ud"
    and unlocked: "\<forall>s. locked_until ud = Some s \<longrightarrow> \<not> now_check < strptime s"
    and wrong: "c \<noteq> code"
  shows "fst (reset_password ext now_check code salt w) = Inr False
       \<and> typed (snd (reset_password ext now_check code salt w)) = ls"
proof (cases "locked_until ud")
  case None
  with t u wrong show ?thesis
    by (simp add: reset_password_def lockout_open send_verification_code_def)
next
  case (Some s)
  with unlocked have "\<not> now_check < strptime s" by simp
  with Some t u wrong show ?thesis
    by (simp add: reset_password_def lockout_expired send_verification_code_def
        save_database_def update_conv')
qed

lemma reset_right_code:
  assumes t: "typed w = u # code # ls" and u: "map_of (database w) u = Some ud"
    and unlocked: "\<forall>s. locked_until ud = Some s \<longrightarrow> \<not> now_check < strptime s"
  shows "fst (reset_password ext now_check code salt w) \<noteq> Inr False"
proof (cases "locked_until ud")
  case None
  with t u show ?thesis
    by (simp add: reset_password_def lockout_open send_verification_code_def Let_def
        split: prod.splits sum.splits)
next
  case (Some s)
  with unlocked have e: "\<not> now_check < strptime s" by simp
  from Some e t u show ?thesis
    by (simp add: reset_password_def lockout_expired send_verification_code_def Let_def
        save_database_def update_conv' split: prod.splits sum.splits)
qed


text \<open>
  C2, as it is stated, fails for the password reset: \<^verbatim>\<open>reset_password\<close> reads one
  code and returns \<^verbatim>\<open>False\<close> when it is wrong. Here the second line typed is the
  code that was sent, and it is never read.
\<close>

theorem reset_single_attempt_counterexample:
  "reset_password demo_externals 0 ''123456'' ''salt''
     (alice_world [''alice01'', ''000000'', ''123456'', ''N3wPassw'', ''N3wPassw'']) =
     (Inr False,
      \<lparr>database = [(''alice01'', alice)], db_file = Some [(''alice01'', alice)],
       typed = [''123456'', ''N3wPassw'', ''N3wPassw''],
       trace = [Input ''alice01'', Code_sent ''a@x.com'' ''123456'', Input ''000000'']\<rparr>)
   \<and> ''123456'' \<in> set (take 3 [''000000'', ''123456'', ''N3wPassw''])"
  by (simp add: reset_password_def check_account_lockout_def send_verification_code_def
      alice_world_def world_of_def alice_def)

text \<open>
  C2, amended. In \<^verbatim>\<open>authenticate\<close> (after the right password) and in
  \<^verbatim>\<open>register_user\<close> (after a username and an address were accepted) the user has up
  to 3 attempts at the code: the flow goes on at the first of the first three lines
  that is the code, and it returns \<^verbatim>\<open>False\<close> exactly when three lines were typed and
  none of them is the code. In \<^verbatim>\<open>reset_password\<close> the user has one attempt: the flow
  returns \<^verbatim>\<open>False\<close> exactly when the first line typed is not the code, and then no
  further line has been read.
\<close>

theorem verification_attempts:
  "(typed w = u # p # cs \<and> map_of (database w) u = Some ud
      \<and> (\<forall>s. locked_until ud = Some s \<longrightarrow> \<not> now_check < strptime s)
      \<and> checkpw ext p (password_hash ud) \<longrightarrow>
    fst (authenticate ext now_check now_fail code w) =
      (if code \<in> set (take 3 cs) then Inr True
       else if 3 \<le> length cs then Inr False else Inl EOFError))
   \<and> (typed w = u # a # cs \<and> 4 \<le> length u \<and> username_match u
      \<and> map_of (database w) u = None \<and> email_match ext a \<longrightarrow>
    (fst (register_user ext code salt now w) = Inr False) =
      (code \<notin> set (take 3 cs) \<and> 3 \<le> length cs))
   \<and> (typed w = u # c # ls \<and> map_of (database w) u = Some ud
      \<and> (\<forall>s. locked_until ud = Some s \<longrightarrow> \<not> now_check < strptime s) \<longrightarrow>
    (fst (reset_password ext now_check code salt w) = Inr False) = (c \<noteq> code)
    \<and> (c \<noteq> code \<longrightarrow> typed (snd (reset_password ext now_check code salt w)) = ls))"
proof (intro conjI impI)
  assume "typed w = u # p # cs \<and> map_of (database w) u = Some ud
      \<and> (\<forall>s. locked_until ud = Some s \<longrightarrow> \<not> now_check < strptime s)
      \<and> checkpw ext p (password_hash ud)"
  then show "fst (authenticate ext now_check now_fail code w) =
      (if code \<in> set (take 3 cs) then Inr True
       else if 3 \<le> length cs then Inr False else Inl EOFError)"
    by (elim conjE) (rule authenticate_attempts)
next
  assume "typed w = u # a # cs \<and> 4 \<le> length u \<and> username_match u
      \<and> map_of (database w) u = None \<and> email_match ext a"
  then show "(fst (register_user ext code salt now w) = Inr False) =
      (code \<notin> set (take 3 cs) \<and> 3 \<le> length cs)"
    by (elim conjE) (rule register_user_attempts)
next
  assume a: "typed w = u # c # ls \<and> map_of (database w) u = Some ud
      \<and> (\<forall>s. locked_until ud = Some s \<longrightarrow> \<not> now_check < strptime s)"
  show "(fst (reset_password ext now_check code salt w) = Inr False) = (c \<noteq> code)"
  proof (cases "c = code")
    case True
    with a have "fst (reset_password ext now_check code salt w) \<noteq> Inr False"
      by (elim conjE) (rule reset_right_code, simp_all)
    with True show ?thesis by simp
  next
    case False
    with a have "fst (reset_password ext now_check code salt w) = Inr False"
      using reset_wrong_code [of w u c ls ud now_check code ext salt] by simp
    with False show ?thesis by simp
  qed
next
  assume a: "typed w = u # c # ls \<and> map_of (database w) u = Some ud
      \<and> (\<forall>s. locked_until ud = Some s \<longrightarrow> \<not> now_check < strptime s)"
    and "c \<noteq> code"
  then show "typed (snd (reset_password ext now_check code salt w)) = ls"
    using reset_wrong_code [of w u c ls ud now_check code ext salt] by simp
qed

theorem verification_attempts_witness:
  "fst (authenticate demo_externals 0 0 ''123456''
      (alice_world [''alice01'', ''Passw0rd'', ''111111'', ''222222'', ''123456''])) = Inr True
   \<and> fst (authenticate demo_externals 0 0 ''123456''
      (alice_world [''alice01'', ''Passw0rd'', ''111111'', ''222222'', ''333333'', ''123456'']))
      = Inr False
   \<and> fst (register_user demo_externals ''123456'' ''salt'' 0
      (alice_world [''bob99'', ''b@x.com'', ''111111'', ''222222'', ''333333'', ''123456'']))
      = Inr False
   \<and> fst (register_user demo_externals ''123456'' ''salt'' 0
      (alice_world [''bob99'', ''b@x.com'', ''111111'', ''222222'', ''123456''])) \<noteq> Inr False
   \<and> fst (reset_password demo_externals 0 ''123456'' ''salt''
      (alice_world [''alice01'', ''000000'', ''123456''])) = Inr False
   \<and> typed (snd (reset_password demo_externals 0 ''123456'' ''salt''
      (alice_world [''alice01'', ''000000'', ''123456'']))) = [''123456'']"
proof -
  have db: "map_of (database (alice_world xs)) ''alice01'' = Some alice"
    "map_of (database (alice_world xs)) ''bob99'' = None"
    "typed (alice_world xs) = xs" for xs
    by (simp_all add: alice_world_def world_of_def)
  have al: "locked_until alice = None" "checkpw demo_externals ''Passw0rd'' (password_hash alice)"
    "email_match demo_externals ''b@x.com''"
    by (simp_all add: alice_def demo_externals_def)
  have bob: "username_match ''bob99''"
    by (simp add: username_match_def username_char_def class_defs)
  have a1: "fst (authenticate demo_externals 0 0 ''123456''
      (alice_world [''alice01'', ''Passw0rd'', ''111111'', ''222222'', ''123456''])) = Inr True"
    using db al verification_attempts [
        where w = "alice_world [''alice01'', ''Passw0rd'', ''111111'', ''222222'', ''123456'']"
          and u = "''alice01''" and p = "''Passw0rd''"
          and cs = "[''111111'', ''222222'', ''123456'']" and ud = alice
          and ext = demo_externals and now_check = 0 and now_fail = 0 and code = "''123456''",
        THEN conjunct1]
    by simp
  have a2: "fst (authenticate demo_externals 0 0 ''123456''
      (alice_world [''alice01'', ''Passw0rd'', ''111111'', ''222222'', ''333333'', ''123456'']))
      = Inr False"
    using db al verification_attempts [
        where w = "alice_world [''alice01'', ''Passw0rd'', ''111111'', ''222222'', ''333333'',
            ''123456'']"
          and u = "''alice01''" and p = "''Passw0rd''"
          and cs = "[''111111'', ''222222'', ''333333'', ''123456'']" and ud = alice
          and ext = demo_externals and now_check = 0 and now_fail = 0 and code = "''123456''",
        THEN conjunct1]
    by simp
  have r1: "fst (register_user demo_externals ''123456'' ''salt'' 0
      (alice_world [''bob99'', ''b@x.com'', ''111111'', ''222222'', ''333333'', ''123456'']))
      = Inr False"
    using db al bob verification_attempts [
        where w = "alice_world [''bob99'', ''b@x.com'', ''111111'', ''222222'', ''333333'',
            ''123456'']"
          and u = "''bob99''" and a = "''b@x.com''"
          and cs = "[''111111'', ''222222'', ''333333'', ''123456'']"
          and ext = demo_externals and code = "''123456''" and salt = "''salt''" and now = 0,
        THEN conjunct2, THEN conjunct1]
    by simp
  have r2: "fst (register_user demo_externals ''123456'' ''salt'' 0
      (alice_world [''bob99'', ''b@x.com'', ''111111'', ''222222'', ''123456''])) \<noteq> Inr False"
    using db al bob verification_attempts [
        where w = "alice_world [''bob99'', ''b@x.com'', ''111111'', ''222222'', ''123456'']"
          and u = "''bob99''" and a = "''b@x.com''"
          and cs = "[''111111'', ''222222'', ''123456'']"
          and ext = demo_externals and code = "''123456''" and salt = "''salt''" and now = 0,
        THEN conjunct2, THEN conjunct1]
    by simp
  have p1: "fst (reset_password demo_externals 0 ''123456'' ''salt''
      (alice_world [''alice01'', ''000000'', ''123456''])) = Inr False
   \<and> typed (snd (reset_password demo_externals 0 ''123456'' ''salt''
      (alice_world [''alice01'', ''000000'', ''123456'']))) = [''123456'']"
    using db al verification_attempts [
        where w = "alice_world [''alice01'', ''000000'', ''123456'']"
          and u = "''alice01''" and c = "''000000''" and ls = "[''123456'']" and ud = alice
          and ext = demo_externals and now_check = 0 and code = "''123456''"
          and salt = "''salt''",
        THEN conjunct2, THEN conjunct2]
    by simp
  from a1 a2 r1 r2 p1 show ?thesis by simp
qed

subsection \<open>What a flow does to the database\<close>

lemma db_ok_update: "db_ok d \<Longrightarrow> counter_ok x \<Longrightarrow> db_ok (AList.update v x d)"
  by (induction d) (auto simp: db_ok_def)

lemma db_ok_entry: "db_ok d \<Longrightarrow> map_of d u = Some ud \<Longrightarrow> counter_ok ud"
  by (auto simp: db_ok_def list_all_iff dest: map_of_SomeD)

lemma counter_ok_reset: "counter_ok (ud\<lparr>failed_attempts := 0, locked_until := None\<rparr>)"
  by (simp add: counter_ok_def max_failed_attempts_def)

lemma counter_ok_failure:
  assumes "counter_ok ud"
    and "n = (if locked_until ud = None then failed_attempts ud else 0)"
  shows "counter_ok (ud\<lparr>failed_attempts := n + 1,
            locked_until := (if 5 \<le> n + 1 then Some t else None)\<rparr>)"
  using assms by (auto simp: counter_ok_def max_failed_attempts_def split: option.splits)

text \<open>
  \<^verbatim>\<open>authenticate\<close> leaves the database and the file alone, or it assigns one entry,
  the one of the username typed, which was not locked, and saves.
\<close>

lemma authenticate_effect:
  assumes w': "w' = snd (authenticate ext now_check now_fail code w)"
  shows "database w' = database w \<and> db_file w' = db_file w
    \<or> (\<exists>v ud x. map_of (database w) v = Some ud
          \<and> (\<forall>s. locked_until ud = Some s \<longrightarrow> \<not> now_check < strptime s)
          \<and> database w' = AList.update v x (database w)
          \<and> db_file w' = Some (database w')
          \<and> (counter_ok ud \<longrightarrow> counter_ok x))"
proof (cases "typed w")
  case Nil
  with w' show ?thesis by (simp add: authenticate_def)
next
  case (Cons v ls)
  note t = this
  show ?thesis
  proof (cases "map_of (database w) v")
    case None
    with t w' show ?thesis by (simp add: authenticate_def)
  next
    case (Some ud)
    note u = this
    show ?thesis
    proof (cases "\<forall>s. locked_until ud = Some s \<longrightarrow> \<not> now_check < strptime s")
      case False
      then obtain s where "locked_until ud = Some s" "now_check < strptime s" by auto
      with t u w' show ?thesis by (simp add: authenticate_def lockout_locked)
    next
      case True
      note unlocked = this
      show ?thesis
      proof (cases ls)
        case Nil
        show ?thesis
        proof (cases "locked_until ud")
          case None
          with Nil t u w' show ?thesis by (simp add: authenticate_def lockout_open)
        next
          case (Some s)
          with unlocked have "\<not> now_check < strptime s" by simp
          with Some Nil t u w'
          have "database w' =
              AList.update v (ud\<lparr>failed_attempts := 0, locked_until := None\<rparr>) (database w)
            \<and> db_file w' = Some (database w')"
            by (simp add: authenticate_def lockout_expired save_database_def)
          with u unlocked counter_ok_reset show ?thesis by blast
        qed
      next
        case (Cons p cs)
        with t have t2: "typed w = v # p # cs" by simp
        show ?thesis
        proof (cases "checkpw ext p (password_hash ud)")
          case False
          define n where "n = (if locked_until ud = None then failed_attempts ud else 0)"
          let ?x = "ud\<lparr>failed_attempts := n + 1,
            locked_until :=
              (if 5 \<le> n + 1 then Some (strftime (now_fail + timedelta_minutes 15))
               else None)\<rparr>"
          have "database w' = AList.update v ?x (database w)"
            by (rule authenticate_wrong_password(2) [OF t2 u unlocked False n_def w'])
          moreover have "db_file w' = Some (database w')"
            by (rule authenticate_wrong_password(3) [OF t2 u unlocked False n_def w'])
          moreover have "counter_ok ud \<longrightarrow> counter_ok ?x"
            using counter_ok_failure [OF _ n_def] by blast
          ultimately show ?thesis using u unlocked by blast
        next
          case True
          let ?x = "ud\<lparr>failed_attempts := 0, locked_until := None\<rparr>"
          have "database w' = AList.update v ?x (database w)
              \<and> db_file w' = Some (database w')"
            by (simp add: w' authenticate_right_password [OF t2 u unlocked True refl]
                auth_code_loop_store)
          moreover have "counter_ok ud \<longrightarrow> counter_ok ?x"
            using counter_ok_reset by blast
          ultimately show ?thesis using u unlocked by blast
        qed
      qed
    qed
  qed
qed


lemma password_loop_storeD:
  "password_loop w = (r, w') \<Longrightarrow> database w' = database w \<and> db_file w' = db_file w"
  using password_loop_store [of w] by simp

text \<open>The same for \<^verbatim>\<open>reset_password\<close>; the entry it assigns has no lock and counter 0.\<close>

lemma reset_password_effect:
  assumes w': "w' = snd (reset_password ext now_check code salt w)"
  shows "database w' = database w \<and> db_file w' = db_file w
    \<or> (\<exists>v ud x. map_of (database w) v = Some ud
          \<and> (\<forall>s. locked_until ud = Some s \<longrightarrow> \<not> now_check < strptime s)
          \<and> database w' = AList.update v x (database w)
          \<and> db_file w' = Some (database w')
          \<and> counter_ok x)"
proof (cases "typed w")
  case Nil
  with w' show ?thesis by (simp add: reset_password_def)
next
  case (Cons v ls)
  note t = this
  show ?thesis
  proof (cases "map_of (database w) v")
    case None
    with t w' show ?thesis by (simp add: reset_password_def)
  next
    case (Some ud)
    note u = this
    show ?thesis
    proof (cases "\<forall>s. locked_until ud = Some s \<longrightarrow> \<not> now_check < strptime s")
      case False
      then obtain s where "locked_until ud = Some s" "now_check < strptime s" by auto
      with t u w' show ?thesis by (simp add: reset_password_def lockout_locked)
    next
      case True
      note unlocked = this
      have "database w' = database w \<and> db_file w' = db_file w
        \<or> (\<exists>x. database w' = AList.update v x (database w)
              \<and> db_file w' = Some (database w') \<and> counter_ok x)"
      proof (cases "locked_until ud")
        case None
        with t u w' show ?thesis
          by (cases ls)
             (auto simp: reset_password_def lockout_open send_verification_code_def
                save_database_def Let_def counter_ok_reset
                dest!: password_loop_storeD split: prod.splits sum.splits)
      next
        case (Some s)
        with unlocked have "\<not> now_check < strptime s" by simp
        with Some t u w' show ?thesis
          by (cases ls)
             (auto simp: reset_password_def lockout_expired send_verification_code_def
                save_database_def Let_def update_conv' counter_ok_reset
                dest!: password_loop_storeD split: prod.splits sum.splits)
      qed
      with u unlocked show ?thesis by blast
    qed
  qed
qed


text \<open>\<^verbatim>\<open>register_user\<close> leaves both alone or adds a new entry, and saves.\<close>

lemma register_user_effect:
  assumes w': "w' = snd (register_user ext code salt now w)"
  shows "database w' = database w \<and> db_file w' = db_file w
    \<or> (\<exists>v x. database w' = AList.update v x (database w)
          \<and> db_file w' = Some (database w') \<and> counter_ok x)"
proof -
  obtain r1 w1 where 1: "username_loop w = (r1, w1)" by force
  obtain r2 w2 where 2: "email_loop ext code w1 = (r2, w2)" by force
  obtain r3 w3 where 3: "password_loop w2 = (r3, w3)" by force
  have s1: "database w1 = database w \<and> db_file w1 = db_file w"
    using username_loop_store [of w] 1 by simp
  have s2: "database w2 = database w1 \<and> db_file w2 = db_file w1"
    using email_loop_store [of ext code w1] 2 by simp
  have s3: "database w3 = database w2 \<and> db_file w3 = db_file w2"
    using password_loop_store [of w2] 3 by simp
  have new: "counter_ok \<lparr>password_hash = h, email = a, failed_attempts = 0,
      locked_until = None, registered_on = t\<rparr>" for h a t
    by (simp add: counter_ok_def max_failed_attempts_def)
  from w' 1 2 3 s1 s2 s3
  have "database w' = database w \<and> db_file w' = db_file w
    \<or> (\<exists>v h a t. database w' =
            AList.update v
              \<lparr>password_hash = h, email = a, failed_attempts = 0, locked_until = None,
               registered_on = t\<rparr>
              (database w)
          \<and> db_file w' = Some (database w'))"
    by (auto simp: register_user_def Let_def save_database_def
        split: sum.splits option.splits)
  with new show ?thesis by blast
qed

subsection \<open>The counter and the lock in every reachable world\<close>

lemma world_ok_step:
  assumes "world_ok w"
    and "database w' = database w \<and> db_file w' = db_file w
      \<or> (\<exists>v x. database w' = AList.update v x (database w)
            \<and> db_file w' = Some (database w') \<and> counter_ok x)"
  shows "world_ok w'"
  using assms by (auto simp: world_ok_def db_ok_update)

lemma world_ok_init: "world_ok (init None ls)"
  by (simp add: init_def load_database_def save_database_def world_ok_def db_ok_def)

lemma world_ok_restart: "world_ok w \<Longrightarrow> world_ok (init (db_file w) ls)"
  by (cases "db_file w")
     (simp_all add: init_def load_database_def save_database_def world_ok_def db_ok_def)

lemma world_ok_demo:
  "world_ok w \<Longrightarrow> world_ok (snd (populate_demo_users ext salt1 salt2 now1 now2 w))"
  by (simp add: populate_demo_users_def save_database_def world_ok_def db_ok_def
      counter_ok_def max_failed_attempts_def Let_def split: sum.splits)

lemma world_ok_authenticate:
  assumes "world_ok w"
  shows "world_ok (snd (authenticate ext now_check now_fail code w))"
proof (rule world_ok_step [OF assms])
  from assms have ok: "db_ok (database w)" by (simp add: world_ok_def)
  from authenticate_effect [OF refl, of ext now_check now_fail code w] ok
  show "database (snd (authenticate ext now_check now_fail code w)) = database w
      \<and> db_file (snd (authenticate ext now_check now_fail code w)) = db_file w
    \<or> (\<exists>v x. database (snd (authenticate ext now_check now_fail code w)) =
            AList.update v x (database w)
          \<and> db_file (snd (authenticate ext now_check now_fail code w)) =
            Some (database (snd (authenticate ext now_check now_fail code w)))
          \<and> counter_ok x)"
    by (meson db_ok_entry)
qed

lemma world_ok_reset_password:
  assumes "world_ok w"
  shows "world_ok (snd (reset_password ext now_check code salt w))"
proof (rule world_ok_step [OF assms])
  from reset_password_effect [OF refl, of ext now_check code salt w]
  show "database (snd (reset_password ext now_check code salt w)) = database w
      \<and> db_file (snd (reset_password ext now_check code salt w)) = db_file w
    \<or> (\<exists>v x. database (snd (reset_password ext now_check code salt w)) =
            AList.update v x (database w)
          \<and> db_file (snd (reset_password ext now_check code salt w)) =
            Some (database (snd (reset_password ext now_check code salt w)))
          \<and> counter_ok x)"
    by blast
qed

lemma reachable_world_ok: "reachable w \<Longrightarrow> world_ok w"
proof (induction rule: reachable.induct)
  case (start ls)
  show ?case by (rule world_ok_init)
next
  case (restart w ls)
  then show ?case by (simp add: world_ok_restart)
next
  case (demo w ext salt1 salt2 now1 now2)
  then show ?case by (simp add: world_ok_demo)
next
  case (register w ext code salt now)
  from register.IH show ?case
    by (rule world_ok_step) (rule register_user_effect [OF refl])
next
  case (login w ext now_check now_fail code)
  from login.IH show ?case by (rule world_ok_authenticate)
next
  case (reset w ext now_check code salt)
  from reset.IH show ?case by (rule world_ok_reset_password)
qed

text \<open>A login leaves an entry alone while the entry is locked, whoever logs in.\<close>

lemma authenticate_keeps_locked_entry:
  assumes u: "map_of (database w) u = Some ud" and l: "locked_until ud = Some s"
    and n: "now_check < strptime s"
  shows "map_of (database (snd (authenticate ext now_check now_fail code w))) u = Some ud"
proof -
  from authenticate_effect [OF refl, of ext now_check now_fail code w]
  consider "database (snd (authenticate ext now_check now_fail code w)) = database w"
    | v ud' x where "map_of (database w) v = Some ud'"
      "\<forall>s. locked_until ud' = Some s \<longrightarrow> \<not> now_check < strptime s"
      "database (snd (authenticate ext now_check now_fail code w)) = AList.update v x (database w)"
    by blast
  then show ?thesis
  proof cases
    case 1
    with u show ?thesis by simp
  next
    case (2 v ud' x)
    have "v \<noteq> u"
    proof
      assume "v = u"
      with 2(1) u have "ud' = ud" by simp
      with 2(2) l n show False by simp
    qed
    with 2(3) u show ?thesis by (simp add: update_conv')
  qed
qed

subsection \<open>Scenarios A and B\<close>

lemma username_match_alice: "username_match ''alice01''"
  by (simp add: username_match_def username_char_def class_defs)

lemma password_ok_Passw0rd: "password_violation ''Passw0rd'' = None"
  by (simp add: password_violation_def re_search_def class_defs)

lemma scenario_A_world:
  "scenario_A =
     \<lparr>database = [(''alice01'', alice)], db_file = Some [(''alice01'', alice)],
      typed = [''alice01'', ''nope'', ''alice01'', ''nope'', ''alice01'', ''nope'',
           ''alice01'', ''nope'', ''alice01'', ''nope'', ''alice01'', ''Passw0rd''],
      trace = [Saved [], Input ''alice01'', Input ''a@x.com'',
               Code_sent ''a@x.com'' ''123456'', Input ''123456'',
               Getpass ''Passw0rd'', Getpass ''Passw0rd'', Saved [(''alice01'', alice)]]\<rparr>"
  by code_simp

lemma scenario_A_reachable: "reachable scenario_A"
  unfolding scenario_A_def by (intro reachable.intros)

lemma scenario_B_reachable: "reachable scenario_B"
  unfolding scenario_B_def logins.simps by (intro reachable.intros scenario_A_reachable)

lemma scenario_B_alice:
  "map_of (database scenario_B) ''alice01'' = Some (locked_alice 915)"
proof -
  have "map_of (database (logins demo_externals
          ([(0, 0, ''1''), (0, 0, ''2''), (0, 0, ''3''), (0, 0, ''4'')] @ [(0, 15500000, ''5'')])
          scenario_A)) ''alice01'' =
      Some (alice\<lparr>failed_attempts := 5,
              locked_until := Some (strftime (15500000 + timedelta_minutes 15))\<rparr>)"
    by (rule fifth_wrong_password [where ps = "[''nope'', ''nope'', ''nope'', ''nope'']"
          and ls = "[''alice01'', ''Passw0rd'']" and ?p5.0 = "''nope''"])
       (simp_all add: scenario_A_world alice_def demo_externals_def)
  then show ?thesis
    by (simp add: scenario_B_def locked_alice_def strftime_def timedelta_minutes_def)
qed


text \<open>
  C3, as it is stated, fails: after Scenarios A and B the program is in a world where
  the entry of \<open>alice01\<close> has \<open>failed_attempts\<close> 5, not 0, while its
  \<open>locked_until\<close> is set and is still ahead of the clock reading of the fifth failure.
\<close>

theorem locked_counter_counterexample:
  "reachable scenario_B
   \<and> map_of (database scenario_B) ''alice01'' = Some (locked_alice 915)
   \<and> failed_attempts (locked_alice 915) = 5
   \<and> locked_until (locked_alice 915) = Some 915
   \<and> (15500000 :: datetime) < strptime 915"
  by (simp add: scenario_B_reachable scenario_B_alice locked_alice_def strptime_def)

text \<open>
  C3, amended. In every reachable world, each entry has \<open>failed_attempts\<close> from 0 to
  4 while \<open>locked_until\<close> is absent, and \<open>failed_attempts\<close> 5 while \<open>locked_until\<close>
  is set; so the counter is nonzero also under a lock. Once the threshold is reached
  and \<open>locked_until\<close> is set, the counter is not incremented until the lock expires: a
  login at a clock reading before \<open>locked_until\<close> leaves the entry as it is.
\<close>

theorem counter_and_lock:
  "(reachable w \<and> map_of (database w) u = Some ud \<longrightarrow>
      (case locked_until ud of
         None \<Rightarrow> 0 \<le> failed_attempts ud \<and> failed_attempts ud < 5
       | Some s \<Rightarrow> failed_attempts ud = 5))
   \<and> (map_of (database w) u = Some ud \<and> locked_until ud = Some s
        \<and> now_check < strptime s \<longrightarrow>
      map_of (database (snd (authenticate ext now_check now_fail code w))) u = Some ud)"
proof (intro conjI impI)
  assume "reachable w \<and> map_of (database w) u = Some ud"
  then have "world_ok w" and "map_of (database w) u = Some ud"
    by (simp_all add: reachable_world_ok)
  then have "counter_ok ud"
    by (auto simp: world_ok_def intro: db_ok_entry)
  then show "case locked_until ud of
         None \<Rightarrow> 0 \<le> failed_attempts ud \<and> failed_attempts ud < 5
       | Some s \<Rightarrow> failed_attempts ud = 5"
    by (simp add: counter_ok_def max_failed_attempts_def split: option.splits)
next
  assume "map_of (database w) u = Some ud \<and> locked_until ud = Some s
        \<and> now_check < strptime s"
  then show "map_of (database (snd (authenticate ext now_check now_fail code w))) u = Some ud"
    by (elim conjE) (rule authenticate_keeps_locked_entry)
qed

theorem counter_and_lock_witness:
  "reachable scenario_A \<and> map_of (database scenario_A) ''alice01'' = Some alice
   \<and> failed_attempts alice = 0
   \<and> reachable scenario_B \<and> map_of (database scenario_B) ''alice01'' = Some (locked_alice 915)
   \<and> failed_attempts (locked_alice 915) = 5
   \<and> map_of (database (snd (authenticate demo_externals 16000000 16000000 ''6'' scenario_B)))
        ''alice01'' = Some (locked_alice 915)"
proof -
  have a: "map_of (database scenario_A) ''alice01'' = Some alice"
    by (simp add: scenario_A_world)
  have a0: "failed_attempts alice = 0"
    using scenario_A_reachable a
      counter_and_lock [where w = scenario_A and u = "''alice01''" and ud = alice,
        THEN conjunct1]
    by (simp add: alice_def)
  have b5: "failed_attempts (locked_alice 915) = 5"
    using scenario_B_reachable scenario_B_alice
      counter_and_lock [where w = scenario_B and u = "''alice01''" and ud = "locked_alice 915",
        THEN conjunct1]
    by (simp add: locked_alice_def)
  have keep: "map_of (database (snd (authenticate demo_externals 16000000 16000000 ''6''
        scenario_B))) ''alice01'' = Some (locked_alice 915)"
    using scenario_B_alice
      counter_and_lock [where w = scenario_B and u = "''alice01''" and ud = "locked_alice 915"
        and s = 915 and now_check = 16000000 and ext = demo_externals
        and now_fail = 16000000 and code = "''6''", THEN conjunct2]
    by (simp add: locked_alice_def strptime_def)
  from a a0 b5 keep scenario_A_reachable scenario_B_reachable scenario_B_alice
  show ?thesis by simp
qed

end
